theory Spec2Isabelle
  imports Main "HOL-Library.Word" "HOL-Library.AList" "HOL-Library.Multiset"
begin

section \<open>Go values used by \<^verbatim>\<open>admin.go\<close>\<close>

text \<open>
  Fixed-width integers are words: \<^verbatim>\<open>int32\<close> is \<open>32 word\<close>, \<^verbatim>\<open>int64\<close> is \<open>64 word\<close>,
  \<^verbatim>\<open>sarama.KError\<close> (an \<^verbatim>\<open>int16\<close>) is \<open>16 word\<close>. They are compared as signed numbers
  through \<open>sint\<close>. Go's \<^verbatim>\<open>int\<close> is taken to be 64 bits wide.
\<close>

type_synonym int32 = "32 word"
type_synonym int64 = "64 word"
type_synonym KError = "16 word"

definition ErrNoError :: KError where
  "ErrNoError = 0"

text \<open>
  A formatted message is kept as its format string together with the arguments, so that
  no number printing has to be modelled.
\<close>

datatype fmt_arg = ArgStr string | ArgInt int

text \<open>
  The non-nil values of Go's \<^verbatim>\<open>error\<close> interface that occur in the program. The nil
  interface value is \<open>None\<close> of \<open>go_error option\<close>.
  \<^item> \<open>fundamental\<close>: what \<^verbatim>\<open>errors.New\<close> and \<^verbatim>\<open>errors.Errorf\<close> of \<^verbatim>\<open>github.com/pkg/errors\<close> build;
  \<^item> \<open>withMessage\<close>: what \<^verbatim>\<open>errors.Wrap\<close> and \<^verbatim>\<open>errors.Wrapf\<close> build around a non-nil cause;
  \<^item> \<open>KErr\<close>: a \<^verbatim>\<open>sarama.KError\<close> used as an error;
  \<^item> \<open>zk_ErrNoNode\<close>: the sentinel \<^verbatim>\<open>zk.ErrNoNode\<close>;
  \<^item> \<open>NumError\<close>: what \<^verbatim>\<open>strconv.Atoi\<close> returns (function, input, reason);
  \<^item> \<open>external\<close>: any other error handed over by a collaborator (transport failures,
    other ZooKeeper errors).
\<close>

datatype go_error =
    fundamental string "fmt_arg list"
  | withMessage go_error string "fmt_arg list"
  | KErr KError
  | zk_ErrNoNode
  | NumError string string string
  | external string

text \<open>
  \<^verbatim>\<open>errors.Wrap(err, msg)\<close> and \<^verbatim>\<open>errors.Wrapf(err, format, args...)\<close>: both return nil when
  \<^verbatim>\<open>err\<close> is nil, and an annotated error otherwise.
\<close>

fun Wrapf :: "go_error option \<Rightarrow> string \<Rightarrow> fmt_arg list \<Rightarrow> go_error option" where
  "Wrapf None format args = None"
| "Wrapf (Some err) format args = Some (withMessage err format args)"

definition Wrap :: "go_error option \<Rightarrow> string \<Rightarrow> go_error option" where
  "Wrap err message = Wrapf err message []"

definition Errorf :: "string \<Rightarrow> fmt_arg list \<Rightarrow> go_error option" where
  "Errorf format args = Some (fundamental format args)"

definition New :: "string \<Rightarrow> go_error option" where
  "New message = Some (fundamental message [])"

text \<open>
  \<^verbatim>\<open>type ( ErrInvalidParam error )\<close> declares a defined type whose underlying type is the
  interface \<^verbatim>\<open>error\<close>. The conversion \<^verbatim>\<open>ErrInvalidParam(e)\<close> of an interface value to this
  interface type keeps the dynamic value as it is. The assertion \<^verbatim>\<open>err.(ErrInvalidParam)\<close>
  on an interface type succeeds exactly when \<^verbatim>\<open>err\<close> is non-nil and its dynamic type has
  the method set of the interface, here the single method \<^verbatim>\<open>Error() string\<close>, which every
  value stored in an \<^verbatim>\<open>error\<close> has.
\<close>

definition ErrInvalidParam :: "go_error option \<Rightarrow> go_error option" where
  "ErrInvalidParam err = err"

fun has_Error_method :: "go_error \<Rightarrow> bool" where
  "has_Error_method (fundamental msg args) = True"
| "has_Error_method (withMessage cause msg args) = True"
| "has_Error_method (KErr k) = True"
| "has_Error_method zk_ErrNoNode = True"
| "has_Error_method (NumError f num reason) = True"
| "has_Error_method (external msg) = True"

fun assert_ErrInvalidParam :: "go_error option \<Rightarrow> bool" where
  "assert_ErrInvalidParam None = False"
| "assert_ErrInvalidParam (Some err) = has_Error_method err"

subsection \<open>\<^verbatim>\<open>strconv.Atoi\<close>\<close>

text \<open>
  An optional sign followed by at least one decimal digit; a value outside the range of
  \<^verbatim>\<open>int\<close> is a range error. The model fails exactly where \<^verbatim>\<open>Atoi\<close> fails; for a
  name that is both too long for \<^verbatim>\<open>int\<close> and malformed, the reason kept in the error may be
  the other one of the two.
\<close>

definition is_digit :: "char \<Rightarrow> bool" where
  "is_digit c = (48 \<le> (of_char c :: nat) \<and> (of_char c :: nat) \<le> 57)"

fun digits_value :: "string \<Rightarrow> int \<Rightarrow> int option" where
  "digits_value [] n = Some n"
| "digits_value (ch # s) n =
     (if is_digit ch then digits_value s (n * 10 + int ((of_char ch :: nat) - 48)) else None)"

definition Atoi :: "string \<Rightarrow> int \<times> go_error option" where
  "Atoi s0 =
     (let s = (case s0 of [] \<Rightarrow> []
                 | c # cs \<Rightarrow> if c = CHR ''-'' \<or> c = CHR ''+'' then cs else s0)
      in if s = [] then (0, Some (NumError ''Atoi'' s0 ''invalid syntax''))
         else case digits_value s 0 of
           None \<Rightarrow> (0, Some (NumError ''Atoi'' s0 ''invalid syntax''))
         | Some n \<Rightarrow>
             (let v = (if take 1 s0 = ''-'' then - n else n)
              in if v < - (2 ^ 63) then (- (2 ^ 63), Some (NumError ''Atoi'' s0 ''value out of range''))
                 else if 2 ^ 63 - 1 < v then (2 ^ 63 - 1, Some (NumError ''Atoi'' s0 ''value out of range''))
                 else (v, None)))"

section \<open>The admin object and its collaborators\<close>

text \<open>
  The collaborators are parameters of the model. A call of a collaborator is a function
  of its arguments: the tree store, the partitions, their leaders and their offset ranges
  do not change while the operations run. The one part of the cluster that the program
  writes is the store of committed offsets of the coordinator: its state, of a type \<open>'s\<close>,
  is passed to \<^verbatim>\<open>FetchOffset\<close> and to \<^verbatim>\<open>CommitOffset\<close>, which returns the new state.
  \<^verbatim>\<open>*sarama.Broker\<close> is a handle (a \<open>nat\<close>).
\<close>

type_synonym Broker = nat

record OffsetResponseBlock =
  ob_Err :: KError
  ob_Offsets :: "int64 list"

text \<open>A response is read through \<^verbatim>\<open>GetBlock(topic, partition)\<close>, nil being \<open>None\<close>.\<close>

type_synonym OffsetResponse = "string \<Rightarrow> int32 \<Rightarrow> OffsetResponseBlock option"

record OffsetFetchResponseBlock =
  fb_Offset :: int64
  fb_Metadata :: string
  fb_Err :: KError

type_synonym OffsetFetchResponse = "string \<Rightarrow> int32 \<Rightarrow> OffsetFetchResponseBlock option"

text \<open>
  \<^verbatim>\<open>OffsetCommitResponse.Errors\<close> is a \<^verbatim>\<open>map[string]map[int32]KError\<close>. The entries of the
  inner map of a topic are listed in the order in which the response carries them
  (\<open>None\<close>: no entry for the topic). The order in which a \<^verbatim>\<open>range\<close> loop visits them is
  another matter, see \<open>range_map\<close> below.
\<close>

type_synonym OffsetCommitResponse = "string \<Rightarrow> (int32 \<times> KError) list option"

text \<open>
  Requests. \<^verbatim>\<open>OffsetRequest.AddBlock\<close> and \<^verbatim>\<open>OffsetCommitRequest.AddBlock\<close> store the block
  under \<^verbatim>\<open>blocks[topic][partition]\<close>, replacing an earlier one;
  \<^verbatim>\<open>OffsetFetchRequest.AddPartition\<close> appends.
\<close>

record OffsetRequest =
  or_blocks :: "((string \<times> int32) \<times> (int64 \<times> int32)) list"

record OffsetFetchRequest =
  fr_ConsumerGroup :: string
  fr_Version :: int
  fr_partitions :: "(string \<times> int32) list"

record offsetCommitRequestBlock =
  cb_offset :: int64
  cb_timestamp :: int64
  cb_metadata :: string

record OffsetCommitRequest =
  cr_Version :: int
  cr_ConsumerGroup :: string
  cr_ConsumerGroupGeneration :: int32
  cr_blocks :: "((string \<times> int32) \<times> offsetCommitRequestBlock) list"

definition ProtocolVer1 :: int where
  "ProtocolVer1 = 1"

definition OffsetNewest :: int64 where
  "OffsetNewest = - 1"

definition OffsetOldest :: int64 where
  "OffsetOldest = - 2"

definition ReceiveTime :: int64 where
  "ReceiveTime = - 1"

definition GroupGenerationUndefined :: int32 where
  "GroupGenerationUndefined = - 1"

definition AddBlock :: "OffsetRequest \<Rightarrow> string \<Rightarrow> int32 \<Rightarrow> int64 \<Rightarrow> int32 \<Rightarrow> OffsetRequest" where
  "AddBlock r topic partitionID time maxOffsets =
     r\<lparr>or_blocks := AList.update (topic, partitionID) (time, maxOffsets) (or_blocks r)\<rparr>"

definition AddPartition :: "OffsetFetchRequest \<Rightarrow> string \<Rightarrow> int32 \<Rightarrow> OffsetFetchRequest" where
  "AddPartition r topic partitionID = r\<lparr>fr_partitions := fr_partitions r @ [(topic, partitionID)]\<rparr>"

definition AddCommitBlock ::
  "OffsetCommitRequest \<Rightarrow> string \<Rightarrow> int32 \<Rightarrow> int64 \<Rightarrow> int64 \<Rightarrow> string \<Rightarrow> OffsetCommitRequest" where
  "AddCommitBlock r topic partitionID offset timestamp metadata =
     r\<lparr>cr_blocks := AList.update (topic, partitionID)
          \<lparr>cb_offset = offset, cb_timestamp = timestamp, cb_metadata = metadata\<rparr> (cr_blocks r)\<rparr>"

text \<open>\<^verbatim>\<open>sarama.Client\<close> with the brokers reachable through it.\<close>

record 's Client =
  Partitions :: "string \<Rightarrow> int32 list \<times> go_error option"
  Leader :: "string \<Rightarrow> int32 \<Rightarrow> Broker \<times> go_error option"
  Coordinator :: "string \<Rightarrow> Broker \<times> go_error option"
  ID :: "Broker \<Rightarrow> int32"
  GetAvailableOffsets :: "Broker \<Rightarrow> OffsetRequest \<Rightarrow> OffsetResponse \<times> go_error option"
  FetchOffset :: "Broker \<Rightarrow> OffsetFetchRequest \<Rightarrow> 's \<Rightarrow> OffsetFetchResponse \<times> go_error option"
  CommitOffset :: "Broker \<Rightarrow> OffsetCommitRequest \<Rightarrow> 's \<Rightarrow> (OffsetCommitResponse \<times> go_error option) \<times> 's"

text \<open>\<^verbatim>\<open>*zk.Conn\<close>: the node data is read as a string, as \<^verbatim>\<open>string(partitionNodeData)\<close> does.\<close>

record Conn =
  Children :: "string \<Rightarrow> string list \<times> go_error option"
  Get :: "string \<Rightarrow> string \<times> go_error option"

text \<open>
  The admin object \<^verbatim>\<open>T\<close>: the chroot of its configuration and the two lazily created
  connections (nil is \<open>None\<close>). \<open>NewClient\<close> and \<open>Connect\<close> are what \<^verbatim>\<open>sarama.NewClient\<close> and
  \<^verbatim>\<open>zk.Connect\<close> return for this configuration: an error, or a connection that is not nil.
\<close>

record 's T =
  Chroot :: string
  kafkaClt :: "'s Client option"
  zkConn :: "Conn option"
  NewClient :: "go_error + 's Client"
  Connect :: "go_error + Conn"

text \<open>
  \<^verbatim>\<open>lazyKafkaClt\<close> and \<^verbatim>\<open>lazyZKConn\<close> return the cached connection, or create and cache it.
  \<open>Inl\<close> carries the wrapped error of the failing branch, where the field stays nil.
\<close>

definition lazyKafkaClt :: "'s T \<Rightarrow> (go_error + 's Client) \<times> 's T" where
  "lazyKafkaClt a =
     (case kafkaClt a of
        None \<Rightarrow>
          (case NewClient a of
             Inl err \<Rightarrow> (Inl (withMessage err ''failed to create sarama.Client'' []), a)
           | Inr clt \<Rightarrow> (Inr clt, a\<lparr>kafkaClt := Some clt\<rparr>))
      | Some clt \<Rightarrow> (Inr clt, a))"

definition lazyZKConn :: "'s T \<Rightarrow> (go_error + Conn) \<times> 's T" where
  "lazyZKConn a =
     (case zkConn a of
        None \<Rightarrow>
          (case Connect a of
             Inl err \<Rightarrow> (Inl (withMessage err ''failed to create zk.Conn'' []), a)
           | Inr conn \<Rightarrow> (Inr conn, a\<lparr>zkConn := Some conn\<rparr>))
      | Some conn \<Rightarrow> (Inr conn, a))"

section \<open>Partition ownership: \<^verbatim>\<open>GetTopicConsumers\<close> and \<^verbatim>\<open>GetAllTopicConsumers\<close>\<close>

text \<open>
  The parameter \<^verbatim>\<open>group\<close> of the operations is written \<open>grp\<close>.
\<close>

text \<open>
  A Go map that is built by insertion and then read is an association list with distinct
  keys, kept by \<open>AList.update\<close>; \<^verbatim>\<open>len\<close> is its length. Reading a missing key of a
  \<^verbatim>\<open>map[string][]int32\<close> gives the nil slice.
\<close>

type_synonym consumers_map = "(string \<times> int32 list) list"

definition lookup_slice :: "consumers_map \<Rightarrow> string \<Rightarrow> int32 list" where
  "lookup_slice consumers clientID = (case map_of consumers clientID of None \<Rightarrow> [] | Some ps \<Rightarrow> ps)"

text \<open>
  The loop over \<^verbatim>\<open>partitionNodes\<close>. \<open>Inl\<close> is the error of an early return, \<open>Inr\<close> the map
  when the loop has run through. \<^verbatim>\<open>int32(partition)\<close> keeps the low 32 bits.
\<close>

fun collect_owners :: "Conn \<Rightarrow> string \<Rightarrow> string list \<Rightarrow> consumers_map \<Rightarrow> go_error option + consumers_map" where
  "collect_owners conn consumedPartitionsPath [] consumers = Inr consumers"
| "collect_owners conn consumedPartitionsPath (partitionNode # partitionNodes) consumers =
     (case Atoi partitionNode of
        (partitionInt, Some err) \<Rightarrow> Inl (Wrapf (Some err) ''invalid partition id, %s'' [ArgStr partitionNode])
      | (partitionInt, None) \<Rightarrow>
          (case Get conn (consumedPartitionsPath @ ''/'' @ partitionNode) of
             (partitionNodeData, Some err) \<Rightarrow> Inl (Wrapf (Some err) ''failed to fetch partition owner'' [])
           | (clientID, None) \<Rightarrow>
               collect_owners conn consumedPartitionsPath partitionNodes
                 (AList.update clientID (lookup_slice consumers clientID @ [word_of_int partitionInt]) consumers)))"

text \<open>
  \<^verbatim>\<open>sort.Sort(int32Slice(partitions))\<close> orders a slice by \<^verbatim>\<open>p[i] < p[j]\<close> on \<^verbatim>\<open>int32\<close>, in
  place, so the map sees the sorted slice.
\<close>

definition sort_int32Slice :: "int32 list \<Rightarrow> int32 list" where
  "sort_int32Slice p = sort_key sint p"

definition sort_consumers :: "consumers_map \<Rightarrow> consumers_map" where
  "sort_consumers consumers = map (\<lambda>(clientID, partitions). (clientID, sort_int32Slice partitions)) consumers"

definition GetTopicConsumers :: "'s T \<Rightarrow> string \<Rightarrow> string \<Rightarrow> (consumers_map option \<times> go_error option) \<times> 's T" where
  "GetTopicConsumers a grp topic =
     (case lazyZKConn a of
        (Inl err, a') \<Rightarrow> ((None, Some err), a')
      | (Inr conn, a') \<Rightarrow>
          (let consumedPartitionsPath = Chroot a' @ ''/consumers/'' @ grp @ ''/owners/'' @ topic
           in case Children conn consumedPartitionsPath of
                (partitionNodes, Some err) \<Rightarrow>
                  if err = zk_ErrNoNode
                  then ((None, ErrInvalidParam (New ''either group or topic is incorrect'')), a')
                  else ((None, Wrapf (Some err) ''failed to fetch partition owners data'' []), a')
              | (partitionNodes, None) \<Rightarrow>
                  (case collect_owners conn consumedPartitionsPath partitionNodes [] of
                     Inl err \<Rightarrow> ((None, err), a')
                   | Inr consumers \<Rightarrow> ((Some (sort_consumers consumers), None), a'))))"

type_synonym cluster_map = "(string \<times> consumers_map) list"

text \<open>The loop over \<^verbatim>\<open>groups\<close>, with the returns of \<^verbatim>\<open>GetAllTopicConsumers\<close> inside it.\<close>

fun scan_groups :: "'s T \<Rightarrow> string \<Rightarrow> string list \<Rightarrow> cluster_map \<Rightarrow> (cluster_map option \<times> go_error option) \<times> 's T" where
  "scan_groups a topic [] consumers = ((Some consumers, None), a)"
| "scan_groups a topic (grp # groups) consumers =
     (case GetTopicConsumers a grp topic of
        ((groupConsumers, Some err), a') \<Rightarrow>
          if assert_ErrInvalidParam (Some err) then scan_groups a' topic groups consumers
          else ((None, Wrapf (Some err) ''failed to fetch group `%s` data'' [ArgStr grp]), a')
      | ((None, None), a') \<Rightarrow> scan_groups a' topic groups consumers
      | ((Some groupConsumers, None), a') \<Rightarrow>
          if length groupConsumers > 0
          then scan_groups a' topic groups (AList.update grp groupConsumers consumers)
          else scan_groups a' topic groups consumers)"

definition GetAllTopicConsumers :: "'s T \<Rightarrow> string \<Rightarrow> (cluster_map option \<times> go_error option) \<times> 's T" where
  "GetAllTopicConsumers a topic =
     (case lazyZKConn a of
        (Inl err, a') \<Rightarrow> ((None, Some err), a')
      | (Inr kzConn, a') \<Rightarrow>
          (let groupsPath = Chroot a' @ ''/consumers''
           in case Children kzConn groupsPath of
                (groups, Some err) \<Rightarrow> ((None, Wrapf (Some err) ''failed to fetch consumer groups'' []), a')
              | (groups, None) \<Rightarrow> scan_groups a' topic groups []))"

section \<open>Committed offsets: \<^verbatim>\<open>SetGroupOffsets\<close>\<close>

record PartitionOffset =
  Partition :: int32
  Begin :: int64
  End :: int64
  Offset :: int64
  Metadata :: string

text \<open>The loop that adds one block per input record to the commit request.\<close>

fun add_commit_blocks :: "OffsetCommitRequest \<Rightarrow> string \<Rightarrow> PartitionOffset list \<Rightarrow> OffsetCommitRequest" where
  "add_commit_blocks req topic [] = req"
| "add_commit_blocks req topic (po # offsets) =
     add_commit_blocks (AddCommitBlock req topic (Partition po) (Offset po) ReceiveTime (Metadata po)) topic offsets"

definition commit_request :: "string \<Rightarrow> string \<Rightarrow> PartitionOffset list \<Rightarrow> OffsetCommitRequest" where
  "commit_request grp topic offsets =
     add_commit_blocks
       \<lparr>cr_Version = ProtocolVer1, cr_ConsumerGroup = grp,
        cr_ConsumerGroupGeneration = GroupGenerationUndefined, cr_blocks = []\<rparr> topic offsets"

text \<open>
  Go visits the entries of a map in an order that the language leaves open and that
  changes from run to run. The order of one run is given by a list of choices: each
  choice takes the entry at that position out of the entries that are left; when the
  choices are used up, the entries that are left follow as they are. Every order of
  the entries is the outcome of some list of choices.
\<close>

fun range_map :: "nat list \<Rightarrow> 'a list \<Rightarrow> 'a list" where
  "range_map [] entries = entries"
| "range_map (k # choices) entries =
     (if k < length entries
      then entries ! k # range_map choices (take k entries @ drop (Suc k) entries)
      else range_map choices entries)"

text \<open>
  The loop over \<^verbatim>\<open>res.Errors[topic]\<close> and the \<^verbatim>\<open>return nil\<close> after it; the argument is the
  list of entries in the order of the iteration.
\<close>

fun check_commit_errors :: "(int32 \<times> KError) list \<Rightarrow> go_error option" where
  "check_commit_errors [] = None"
| "check_commit_errors ((p, err) # rest) =
     (if err \<noteq> ErrNoError
      then Wrapf (Some (KErr err)) ''failed to commit offset, partition=%d'' [ArgInt (sint p)]
      else check_commit_errors rest)"

definition topic_errors :: "OffsetCommitResponse \<Rightarrow> string \<Rightarrow> (int32 \<times> KError) list" where
  "topic_errors res topic = (case res topic of None \<Rightarrow> [] | Some entries \<Rightarrow> entries)"

text \<open>
  \<^verbatim>\<open>SetGroupOffsets\<close>; \<open>choices\<close> gives the order in which this run ranges over
  \<^verbatim>\<open>res.Errors[topic]\<close>, and \<open>s\<close> is the state of the coordinator's store, returned as the
  call leaves it.
\<close>

definition SetGroupOffsets ::
  "nat list \<Rightarrow> 's T \<Rightarrow> string \<Rightarrow> string \<Rightarrow> PartitionOffset list \<Rightarrow> 's \<Rightarrow> (go_error option \<times> 's T) \<times> 's" where
  "SetGroupOffsets choices a grp topic offsets s =
     (case lazyKafkaClt a of
        (Inl err, a') \<Rightarrow> ((Some err, a'), s)
      | (Inr clt, a') \<Rightarrow>
          (case Coordinator clt grp of
             (coordinator, Some err) \<Rightarrow> ((Wrapf (Some err) ''failed to get coordinator'' [], a'), s)
           | (coordinator, None) \<Rightarrow>
               (case CommitOffset clt coordinator (commit_request grp topic offsets) s of
                  ((res, Some err), s') \<Rightarrow> ((Wrapf (Some err) ''failed to commit offsets'' [], a'), s')
                | ((res, None), s') \<Rightarrow>
                    ((check_commit_errors (range_map choices (topic_errors res topic)), a'), s'))))"

section \<open>Offset ranges and committed offsets: \<^verbatim>\<open>GetGroupOffsets\<close>\<close>

text \<open>
  \<^verbatim>\<open>indexedPartition\<close>; its fields \<^verbatim>\<open>index\<close> and \<^verbatim>\<open>partition\<close> carry the prefix \<open>xp_\<close>, since
  \<open>partition\<close> is a function on lists already.
\<close>

record indexedPartition =
  xp_index :: nat
  xp_partition :: int32

type_synonym broker_buckets = "(Broker \<times> indexedPartition list) list"

definition lookup_bucket :: "broker_buckets \<Rightarrow> Broker \<Rightarrow> indexedPartition list" where
  "lookup_bucket brokerToPartitions broker =
     (case map_of brokerToPartitions broker of None \<Rightarrow> [] | Some xps \<Rightarrow> xps)"

text \<open>
  The loop that finds the leader of every partition; its argument is the partition list
  with the positions, \<open>enumerate 0 partitions\<close>.
\<close>

fun group_by_leader :: "'s Client \<Rightarrow> string \<Rightarrow> (nat \<times> int32) list \<Rightarrow> broker_buckets \<Rightarrow> go_error option + broker_buckets" where
  "group_by_leader clt topic [] brokerToPartitions = Inr brokerToPartitions"
| "group_by_leader clt topic ((i, p) # rest) brokerToPartitions =
     (case Leader clt topic p of
        (broker, Some err) \<Rightarrow>
          Inl (Wrapf (Some err) ''failed to get partition leader, partition=%d'' [ArgInt (sint p)])
      | (broker, None) \<Rightarrow>
          group_by_leader clt topic rest
            (AList.update broker
               (lookup_bucket brokerToPartitions broker @ [\<lparr>xp_index = i, xp_partition = p\<rparr>])
               brokerToPartitions))"

fun add_offset_blocks :: "string \<Rightarrow> indexedPartition list \<Rightarrow> OffsetRequest \<times> OffsetRequest \<Rightarrow> OffsetRequest \<times> OffsetRequest" where
  "add_offset_blocks topic [] reqs = reqs"
| "add_offset_blocks topic (p # brokerPartitions) (reqNewest, reqOldest) =
     add_offset_blocks topic brokerPartitions
       (AddBlock reqNewest topic (xp_partition p) OffsetNewest 1,
        AddBlock reqOldest topic (xp_partition p) OffsetOldest 1)"

definition getOffsetResult :: "OffsetResponse \<Rightarrow> string \<Rightarrow> int32 \<Rightarrow> int64 \<times> go_error option" where
  "getOffsetResult res topic partitionID =
     (case res topic partitionID of
        None \<Rightarrow> (0, Errorf ''%s/%d, no data'' [ArgStr topic, ArgInt (sint partitionID)])
      | Some block \<Rightarrow>
          if ob_Err block \<noteq> ErrNoError
          then (0, Wrapf (Some (KErr (ob_Err block))) ''%s/%d, fetch error'' [ArgStr topic, ArgInt (sint partitionID)])
          else if length (ob_Offsets block) < 1
          then (0, Errorf ''%s/%d, no offset'' [ArgStr topic, ArgInt (sint partitionID)])
          else (ob_Offsets block ! 0, None))"

text \<open>
  What one spawned task does to the state it shares with the others: three field writes
  per partition, and at most one send on the error channel, after which it returns.
\<close>

datatype event =
    SetPartition nat int32
  | SetBegin nat int64
  | SetEnd nat int64
  | SendErr "go_error option"

fun write_ranges :: "int32 \<Rightarrow> OffsetResponse \<Rightarrow> OffsetResponse \<Rightarrow> string \<Rightarrow> indexedPartition list \<Rightarrow> event list" where
  "write_ranges brokerID resOldest resNewest topic [] = []"
| "write_ranges brokerID resOldest resNewest topic (xp # brokerPartitions) =
     (case getOffsetResult resOldest topic (xp_partition xp) of
        (begin, Some err) \<Rightarrow>
          [SendErr (Wrapf (Some err) ''failed to fetch oldest offset, broker=%v'' [ArgInt (sint brokerID)])]
      | (begin, None) \<Rightarrow>
          (case getOffsetResult resNewest topic (xp_partition xp) of
             (end, Some err) \<Rightarrow>
               [SendErr (Wrapf (Some err) ''failed to fetch newest offset, broker=%v'' [ArgInt (sint brokerID)])]
           | (end, None) \<Rightarrow>
               [SetPartition (xp_index xp) (xp_partition xp), SetBegin (xp_index xp) begin,
                SetEnd (xp_index xp) end]
               @ write_ranges brokerID resOldest resNewest topic brokerPartitions))"

definition offset_fetcher :: "'s Client \<Rightarrow> string \<Rightarrow> Broker \<times> indexedPartition list \<Rightarrow> event list" where
  "offset_fetcher clt topic bucket =
     (case bucket of (broker, brokerPartitions) \<Rightarrow>
        (case add_offset_blocks topic brokerPartitions (\<lparr>or_blocks = []\<rparr>, \<lparr>or_blocks = []\<rparr>) of
           (reqNewest, reqOldest) \<Rightarrow>
             (case GetAvailableOffsets clt broker reqOldest of
                (resOldest, Some err) \<Rightarrow>
                  [SendErr (Wrapf (Some err) ''failed to fetch oldest offset, broker=%v'' [ArgInt (sint (ID clt broker))])]
              | (resOldest, None) \<Rightarrow>
                  (case GetAvailableOffsets clt broker reqNewest of
                     (resNewest, Some err) \<Rightarrow>
                       [SendErr (Wrapf (Some err) ''failed to fetch newest offset, broker=%v'' [ArgInt (sint (ID clt broker))])]
                   | (resNewest, None) \<Rightarrow>
                       write_ranges (ID clt broker) resOldest resNewest topic brokerPartitions))))"

text \<open>
  The shared state is the array \<^verbatim>\<open>offsets\<close> and the buffered channel \<^verbatim>\<open>errorsCh\<close>, whose
  capacity is the number of tasks, so that no send blocks.
\<close>

fun exec_event :: "event \<Rightarrow> PartitionOffset list \<times> go_error option list \<Rightarrow> PartitionOffset list \<times> go_error option list" where
  "exec_event (SetPartition i p) (offsets, errorsCh) = (offsets[i := (offsets ! i)\<lparr>Partition := p\<rparr>], errorsCh)"
| "exec_event (SetBegin i b) (offsets, errorsCh) = (offsets[i := (offsets ! i)\<lparr>Begin := b\<rparr>], errorsCh)"
| "exec_event (SetEnd i e) (offsets, errorsCh) = (offsets[i := (offsets ! i)\<lparr>End := e\<rparr>], errorsCh)"
| "exec_event (SendErr err) (offsets, errorsCh) = (offsets, errorsCh @ [err])"

text \<open>
  The tasks run concurrently. A schedule is a list of task numbers: each entry lets that
  task take its next step, if it has one. \<^verbatim>\<open>wg.Wait()\<close> returns when every task has
  finished, so when the schedule is used up the tasks that are left run to their end.
\<close>

fun interleave :: "nat list \<Rightarrow> 'a list list \<Rightarrow> 'a list" where
  "interleave [] tasks = concat tasks"
| "interleave (k # sched) tasks =
     (if k < length tasks
      then (case tasks ! k of
              [] \<Rightarrow> interleave sched tasks
            | step # steps \<Rightarrow> step # interleave sched (tasks[k := steps]))
      else interleave sched tasks)"

text \<open>
  The orders in which the steps of concurrent tasks can follow each other: each task
  keeps the order of its own steps, and all of them finish.
\<close>

inductive task_order :: "'a list list \<Rightarrow> 'a list \<Rightarrow> bool" where
  finished: "\<forall>t\<in>set tasks. t = [] \<Longrightarrow> task_order tasks []"
| next_step: "k < length tasks \<Longrightarrow> tasks ! k = step # steps \<Longrightarrow>
     task_order (tasks[k := steps]) order \<Longrightarrow> task_order tasks (step # order)"

definition zero_PartitionOffset :: PartitionOffset where
  "zero_PartitionOffset = \<lparr>Partition = 0, Begin = 0, End = 0, Offset = 0, Metadata = []\<rparr>"

definition query_brokers ::
  "nat list \<Rightarrow> 's Client \<Rightarrow> string \<Rightarrow> int32 list \<Rightarrow> broker_buckets \<Rightarrow> PartitionOffset list \<times> go_error option list" where
  "query_brokers sched clt topic partitions brokerToPartitions =
     fold exec_event (interleave sched (map (offset_fetcher clt topic) brokerToPartitions))
       (replicate (length partitions) zero_PartitionOffset, [])"

fun add_partitions :: "OffsetFetchRequest \<Rightarrow> string \<Rightarrow> int32 list \<Rightarrow> OffsetFetchRequest" where
  "add_partitions req topic [] = req"
| "add_partitions req topic (p # partitions) = add_partitions (AddPartition req topic p) topic partitions"

definition fetch_request :: "string \<Rightarrow> string \<Rightarrow> int32 list \<Rightarrow> OffsetFetchRequest" where
  "fetch_request grp topic partitions =
     add_partitions \<lparr>fr_ConsumerGroup = grp, fr_Version = ProtocolVer1, fr_partitions = []\<rparr> topic partitions"

text \<open>
  The last loop of \<^verbatim>\<open>GetGroupOffsets\<close> with both of its returns. The error of the early
  return is \<^verbatim>\<open>errors.Wrapf(nil, ...)\<close>.
\<close>

fun fill_committed :: "OffsetFetchResponse \<Rightarrow> string \<Rightarrow> (nat \<times> int32) list \<Rightarrow> PartitionOffset list \<Rightarrow> PartitionOffset list option \<times> go_error option" where
  "fill_committed res topic [] offsets = (Some offsets, None)"
| "fill_committed res topic ((i, p) # rest) offsets =
     (case res topic p of
        None \<Rightarrow> (None, Wrapf None ''offset block is missing, partition=%d'' [ArgInt (sint p)])
      | Some block \<Rightarrow>
          fill_committed res topic rest
            (offsets[i := (offsets ! i)\<lparr>Offset := fb_Offset block, Metadata := fb_Metadata block\<rparr>]))"

definition fetch_committed ::
  "'s Client \<Rightarrow> string \<Rightarrow> string \<Rightarrow> int32 list \<Rightarrow> PartitionOffset list \<Rightarrow> 's \<Rightarrow> PartitionOffset list option \<times> go_error option" where
  "fetch_committed clt grp topic partitions offsets s =
     (case Coordinator clt grp of
        (coordinator, Some err) \<Rightarrow> (None, Wrapf (Some err) ''failed to get coordinator'' [])
      | (coordinator, None) \<Rightarrow>
          (case FetchOffset clt coordinator (fetch_request grp topic partitions) s of
             (res, Some err) \<Rightarrow> (None, Wrapf (Some err) ''failed to fetch offsets'' [])
           | (res, None) \<Rightarrow> fill_committed res topic (enumerate 0 partitions) offsets))"

text \<open>
  \<^verbatim>\<open>GetGroupOffsets\<close>; \<open>sched\<close> is the schedule of the spawned tasks and \<open>s\<close> the state of
  the coordinator's store, which the operation only reads. The buckets are kept in
  the order in which their brokers first appear; the order in which Go ranges over the
  map only changes the order in which the tasks are spawned, which the schedule covers.
\<close>

definition GetGroupOffsets ::
  "nat list \<Rightarrow> 's T \<Rightarrow> string \<Rightarrow> string \<Rightarrow> 's \<Rightarrow> (PartitionOffset list option \<times> go_error option) \<times> 's T" where
  "GetGroupOffsets sched a grp topic s =
     (case lazyKafkaClt a of
        (Inl err, a') \<Rightarrow> ((None, Some err), a')
      | (Inr clt, a') \<Rightarrow>
          (case Partitions clt topic of
             (partitions, Some err) \<Rightarrow> ((None, Wrap (Some err) ''failed to get topic partitions''), a')
           | (partitions, None) \<Rightarrow>
               (case group_by_leader clt topic (enumerate 0 partitions) [] of
                  Inl err \<Rightarrow> ((None, err), a')
                | Inr brokerToPartitions \<Rightarrow>
                    (case query_brokers sched clt topic partitions brokerToPartitions of
                       (offsets, err # errorsCh) \<Rightarrow> ((None, err), a')
                     | (offsets, []) \<Rightarrow> (fetch_committed clt grp topic partitions offsets s, a')))))"

section \<open>Notions used to state the properties\<close>

text \<open>Ascending and strictly ascending \<^verbatim>\<open>int32\<close> sequences, in the order \<^verbatim>\<open><\<close> of Go.\<close>

definition ascending :: "int32 list \<Rightarrow> bool" where
  "ascending ps = sorted_wrt (\<lambda>x y. sint x \<le> sint y) ps"

definition strictly_ascending :: "int32 list \<Rightarrow> bool" where
  "strictly_ascending ps = sorted_wrt (\<lambda>x y. sint x < sint y) ps"

text \<open>The partition id that \<^verbatim>\<open>GetTopicConsumers\<close> reads from the name of a child node.\<close>

definition node_partition :: "string \<Rightarrow> int32" where
  "node_partition partitionNode = word_of_int (fst (Atoi partitionNode))"

text \<open>The three fields of a record that \<^verbatim>\<open>SetGroupOffsets\<close> reads.\<close>

definition commit_fields :: "PartitionOffset \<Rightarrow> int32 \<times> int64 \<times> string" where
  "commit_fields po = (Partition po, Offset po, Metadata po)"


text \<open>
  The ways in which the offset-range query of one broker fails, in the words of the
  specification: a transport error of one of the two requests, or, for a partition of
  the bucket, a missing response block, a remote error code or an empty offsets list.
\<close>

definition block_unusable :: "OffsetResponse \<Rightarrow> string \<Rightarrow> int32 \<Rightarrow> bool" where
  "block_unusable res topic p =
     (case res topic p of
        None \<Rightarrow> True
      | Some block \<Rightarrow> ob_Err block \<noteq> ErrNoError \<or> ob_Offsets block = [])"

definition range_query_fails :: "'s Client \<Rightarrow> string \<Rightarrow> Broker \<times> indexedPartition list \<Rightarrow> bool" where
  "range_query_fails clt topic bucket =
     (case bucket of (broker, brokerPartitions) \<Rightarrow>
        (case add_offset_blocks topic brokerPartitions (\<lparr>or_blocks = []\<rparr>, \<lparr>or_blocks = []\<rparr>) of
           (reqNewest, reqOldest) \<Rightarrow>
             (case (GetAvailableOffsets clt broker reqOldest, GetAvailableOffsets clt broker reqNewest) of
                ((resOldest, errOldest), (resNewest, errNewest)) \<Rightarrow>
                  errOldest \<noteq> None \<or> errNewest \<noteq> None \<or>
                  list_ex (\<lambda>xp. block_unusable resOldest topic (xp_partition xp) \<or>
                                 block_unusable resNewest topic (xp_partition xp)) brokerPartitions)))"

text \<open>
  The first entry of a commit response, in the order of the response, whose code is not
  success.
\<close>

definition first_failure :: "(int32 \<times> KError) list \<Rightarrow> (int32 \<times> KError) option" where
  "first_failure entries = find (\<lambda>entry. snd entry \<noteq> ErrNoError) entries"



text \<open>The entries of all buckets of a grouping of partitions by leader.\<close>

definition bucket_entries :: "broker_buckets \<Rightarrow> indexedPartition set" where
  "bucket_entries brokerToPartitions = (\<Union>bucket\<in>set brokerToPartitions. set (snd bucket))"

section \<open>Example clusters\<close>

text \<open>
  The tree store of the specification's scenario: group \<open>g1\<close> owns the partitions of
  topic \<open>orders\<close> (\<open>0\<close> and \<open>1\<close> by \<open>clientA\<close>, \<open>2\<close> by \<open>clientB\<close>); group \<open>g2\<close> is registered
  and has no node for the topic; listing the node of group \<open>g3\<close> fails.
\<close>

definition demo_conn :: Conn where
  "demo_conn =
     \<lparr>Children = (\<lambda>path.
         if path = ''/kafka/consumers'' then ([''g1'', ''g2'', ''g3''], None)
         else if path = ''/kafka/consumers/g1/owners/orders'' then ([''0'', ''1'', ''2''], None)
         else if path = ''/kafka/consumers/g3/owners/orders'' then ([], Some (external ''zk: connection closed''))
         else ([], Some zk_ErrNoNode)),
      Get = (\<lambda>path.
         if path = ''/kafka/consumers/g1/owners/orders/2'' then (''clientB'', None)
         else (''clientA'', None))\<rparr>"

text \<open>A tree store with the child nodes \<open>1\<close> and \<open>01\<close>, both owned by \<open>clientA\<close>.\<close>

definition twin_conn :: Conn where
  "twin_conn =
     \<lparr>Children = (\<lambda>path. ([''1'', ''01''], None)),
      Get = (\<lambda>path. (''clientA'', None))\<rparr>"

text \<open>
  The cluster of the specification's scenario: topic \<open>orders\<close> has the partitions
  \<open>[0, 1, 2]\<close>; broker 1 leads \<open>0\<close> and \<open>2\<close>, broker 2 leads \<open>1\<close>; the oldest offsets are
  100, 20 and 300, the newest 150, 40 and 350. The coordinator keeps the committed
  offsets in a store, a list of entries for group, topic and partition in which a newer
  entry hides an older one; it accepts every commit and answers a fetch from the store,
  with offset \<open>-1\<close> and no metadata where nothing was committed. In \<open>demo_store\<close> it holds
  offset 42 with metadata \<open>chk1\<close> for partition \<open>1\<close> of \<open>orders\<close> and group \<open>g1\<close>.
\<close>

type_synonym offset_store = "((string \<times> string \<times> int32) \<times> (int64 \<times> string)) list"

definition demo_store :: offset_store where
  "demo_store = [((''g1'', ''orders'', 1), (42, ''chk1''))]"

definition demo_ranges :: "Broker \<Rightarrow> OffsetRequest \<Rightarrow> OffsetResponse \<times> go_error option" where
  "demo_ranges broker req =
     ((\<lambda>topic p.
         case map_of (or_blocks req) (topic, p) of
           None \<Rightarrow> None
         | Some (time, maxOffsets) \<Rightarrow>
             Some \<lparr>ob_Err = ErrNoError,
                   ob_Offsets = [if time = OffsetOldest
                                 then (if p = 0 then 100 else if p = 1 then 20 else 300)
                                 else (if p = 0 then 150 else if p = 1 then 40 else 350)]\<rparr>),
      None)"

definition demo_fetch :: "Broker \<Rightarrow> OffsetFetchRequest \<Rightarrow> offset_store \<Rightarrow> OffsetFetchResponse \<times> go_error option" where
  "demo_fetch coordinator req s =
     ((\<lambda>topic p.
         if (topic, p) \<in> set (fr_partitions req)
         then Some (case map_of s (fr_ConsumerGroup req, topic, p) of
                      None \<Rightarrow> \<lparr>fb_Offset = - 1, fb_Metadata = [], fb_Err = ErrNoError\<rparr>
                    | Some (offset, metadata) \<Rightarrow>
                        \<lparr>fb_Offset = offset, fb_Metadata = metadata, fb_Err = ErrNoError\<rparr>)
         else None),
      None)"

definition store_entry :: "string \<Rightarrow> (string \<times> int32) \<times> offsetCommitRequestBlock \<Rightarrow> (string \<times> string \<times> int32) \<times> (int64 \<times> string)" where
  "store_entry grp block = ((grp, fst (fst block), snd (fst block)), (cb_offset (snd block), cb_metadata (snd block)))"

definition demo_commit ::
  "Broker \<Rightarrow> OffsetCommitRequest \<Rightarrow> offset_store \<Rightarrow> (OffsetCommitResponse \<times> go_error option) \<times> offset_store" where
  "demo_commit coordinator req s =
     (((\<lambda>topic. Some (map (\<lambda>block. (snd (fst block), ErrNoError)) (cr_blocks req))), None),
      map (store_entry (cr_ConsumerGroup req)) (cr_blocks req) @ s)"

definition demo_clt :: "offset_store Client" where
  "demo_clt =
     \<lparr>Partitions = (\<lambda>topic. ([0, 1, 2], None)),
      Leader = (\<lambda>topic p. (if p = 1 then 2 else 1, None)),
      Coordinator = (\<lambda>grp. (3, None)),
      ID = (\<lambda>broker. word_of_nat broker),
      GetAvailableOffsets = demo_ranges,
      FetchOffset = demo_fetch,
      CommitOffset = demo_commit\<rparr>"

text \<open>The same cluster, with a coordinator whose fetch response has no block for partition \<open>2\<close>.\<close>

definition gap_clt :: "offset_store Client" where
  "gap_clt =
     demo_clt\<lparr>FetchOffset := (\<lambda>coordinator req s.
        ((\<lambda>topic p. if p = 2 then None else fst (demo_fetch coordinator req s) topic p), None))\<rparr>"

text \<open>The same cluster, with broker 2 out of reach.\<close>

definition lossy_clt :: "offset_store Client" where
  "lossy_clt =
     demo_clt\<lparr>GetAvailableOffsets := (\<lambda>broker req.
        if broker = 2 then ((\<lambda>topic p. None), Some (external ''EOF'')) else demo_ranges broker req)\<rparr>"

text \<open>
  The same cluster, with a coordinator that stores nothing; its response accepts the
  commit for partition \<open>0\<close> and rejects it for \<open>1\<close> (code 3) and \<open>2\<close> (code 5), in this order.
\<close>

definition rejecting_clt :: "offset_store Client" where
  "rejecting_clt =
     demo_clt\<lparr>CommitOffset := (\<lambda>coordinator req s. (((\<lambda>topic. Some [(0, 0), (1, 3), (2, 5)]), None), s))\<rparr>"

definition admin_of :: "'s Client \<Rightarrow> Conn \<Rightarrow> 's T" where
  "admin_of clt conn =
     \<lparr>Chroot = ''/kafka'', kafkaClt = None, zkConn = None, NewClient = Inr clt, Connect = Inr conn\<rparr>"

definition chk1_record :: PartitionOffset where
  "chk1_record = \<lparr>Partition = 1, Begin = 0, End = 0, Offset = 42, Metadata = ''chk1''\<rparr>"


section \<open>Properties\<close>

subsection \<open>The order of a \<^verbatim>\<open>range\<close> over a map\<close>

lemma without_nth:
  assumes "k < length entries"
  shows "mset (take k entries @ drop (Suc k) entries) + {#entries ! k#} = mset entries"
proof -
  have "entries = take k entries @ entries ! k # drop (Suc k) entries"
    using assms by (rule id_take_nth_drop)
  then have "mset entries = mset (take k entries @ entries ! k # drop (Suc k) entries)"
    by simp
  then show ?thesis by simp
qed

lemma mset_range_map: "mset (range_map choices entries) = mset entries"
proof (induction choices arbitrary: entries)
  case Nil
  then show ?case by simp
next
  case (Cons k choices)
  show ?case
  proof (cases "k < length entries")
    case True
    then show ?thesis using Cons.IH [of "take k entries @ drop (Suc k) entries"] without_nth [OF True]
      by simp
  next
    case False
    then show ?thesis using Cons.IH by simp
  qed
qed

lemma set_range_map: "set (range_map choices entries) = set entries"
  using mset_range_map [of choices entries] by (metis set_mset_mset)

text \<open>Every order of the entries is the outcome of some list of choices.\<close>

lemma every_order_ranged:
  "mset visited = mset entries \<Longrightarrow> \<exists>choices. range_map choices entries = visited"
proof (induction visited arbitrary: entries)
  case Nil
  then have "range_map [] entries = []" by simp
  then show ?case by blast
next
  case (Cons x visited)
  then have "x \<in> set entries" by (metis list.set_intros(1) set_mset_mset)
  then obtain k where k: "k < length entries" "entries ! k = x"
    by (auto simp: in_set_conv_nth)
  let ?rest = "take k entries @ drop (Suc k) entries"
  have "mset ?rest + {#x#} = mset visited + {#x#}"
    using without_nth [OF k(1)] k(2) Cons.prems by simp
  then have "mset visited = mset ?rest" by simp
  from Cons.IH [OF this] obtain choices where "range_map choices ?rest = visited" by blast
  with k have "range_map (k # choices) entries = x # visited" by simp
  then show ?case by blast
qed

subsection \<open>\<^verbatim>\<open>SetGroupOffsets\<close>\<close>

lemma check_commit_errors_first:
  "\<forall>entry\<in>set before. snd entry = ErrNoError \<Longrightarrow> err \<noteq> ErrNoError \<Longrightarrow>
   check_commit_errors (before @ (p, err) # later) =
     Some (withMessage (KErr err) ''failed to commit offset, partition=%d'' [ArgInt (sint p)])"
  by (induction before) auto

lemma check_commit_errors_none:
  "(\<forall>entry\<in>set entries. snd entry = ErrNoError) \<Longrightarrow> check_commit_errors entries = None"
  by (induction entries) auto


lemma check_commit_errors_SomeD:
  "check_commit_errors entries = Some e \<Longrightarrow>
   \<exists>p err. (p, err) \<in> set entries \<and> err \<noteq> ErrNoError \<and>
     e = withMessage (KErr err) ''failed to commit offset, partition=%d'' [ArgInt (sint p)]"
proof (induction entries)
  case Nil
  then show ?case by simp
next
  case (Cons entry entries)
  obtain q code where entry: "entry = (q, code)" by (cases entry)
  show ?case
  proof (cases "code = ErrNoError")
    case True
    with Cons entry show ?thesis by auto
  next
    case False
    with Cons.prems entry have "e = withMessage (KErr code) ''failed to commit offset, partition=%d'' [ArgInt (sint q)]"
      by simp
    with False entry show ?thesis by auto
  qed
qed

lemma SetGroupOffsets_round_trip:
  assumes "lazyKafkaClt a = (Inr clt, a')" "Coordinator clt grp = (coordinator, None)"
    "CommitOffset clt coordinator (commit_request grp topic offsets) s = ((res, None), s')"
  shows "SetGroupOffsets choices a grp topic offsets s =
           ((check_commit_errors (range_map choices (topic_errors res topic)), a'), s')"
  using assms by (simp add: SetGroupOffsets_def)

text \<open>
  C5, as amended. After a successful round trip to the coordinator, the first entry with
  a code other than success that the loop visits makes \<^verbatim>\<open>SetGroupOffsets\<close> return the error
  of that partition, whatever the entries visited later are. The order of the visits is
  that of this run's iteration over the map, not the order of the response, so the error
  returned is that of some partition of the response whose code is not success. When
  every code is success the operation returns no error.
\<close>

theorem SetGroupOffsets_first_visited_error:
  assumes "lazyKafkaClt a = (Inr clt, a')" "Coordinator clt grp = (coordinator, None)"
    "CommitOffset clt coordinator (commit_request grp topic offsets) s = ((res, None), s')"
  shows "(res topic = Some entries \<and> range_map choices entries = before @ (p, err) # later \<and>
          (\<forall>entry\<in>set before. snd entry = ErrNoError) \<and> err \<noteq> ErrNoError \<longrightarrow>
            fst (fst (SetGroupOffsets choices a grp topic offsets s)) =
              Some (withMessage (KErr err) ''failed to commit offset, partition=%d'' [ArgInt (sint p)]))
       \<and> ((\<forall>entries. res topic = Some entries \<longrightarrow> (\<forall>entry\<in>set entries. snd entry = ErrNoError)) \<longrightarrow>
            fst (fst (SetGroupOffsets choices a grp topic offsets s)) = None)
       \<and> (\<forall>e. fst (fst (SetGroupOffsets choices a grp topic offsets s)) = Some e \<longrightarrow>
            (\<exists>entries p err. res topic = Some entries \<and> (p, err) \<in> set entries \<and> err \<noteq> ErrNoError \<and>
               e = withMessage (KErr err) ''failed to commit offset, partition=%d'' [ArgInt (sint p)]))"
proof -
  have eq: "fst (fst (SetGroupOffsets choices a grp topic offsets s)) =
      check_commit_errors (range_map choices (topic_errors res topic))"
    by (simp add: SetGroupOffsets_round_trip [OF assms])
  show ?thesis
  proof (intro conjI impI allI)
    assume h: "res topic = Some entries \<and> range_map choices entries = before @ (p, err) # later \<and>
          (\<forall>entry\<in>set before. snd entry = ErrNoError) \<and> err \<noteq> ErrNoError"
    then have "range_map choices (topic_errors res topic) = before @ (p, err) # later"
      by (simp add: topic_errors_def)
    with h show "fst (fst (SetGroupOffsets choices a grp topic offsets s)) =
              Some (withMessage (KErr err) ''failed to commit offset, partition=%d'' [ArgInt (sint p)])"
      unfolding eq using check_commit_errors_first [of before err p later] by simp
  next
    assume "\<forall>entries. res topic = Some entries \<longrightarrow> (\<forall>entry\<in>set entries. snd entry = ErrNoError)"
    then have "\<forall>entry\<in>set (range_map choices (topic_errors res topic)). snd entry = ErrNoError"
      by (cases "res topic") (simp_all add: topic_errors_def set_range_map)
    then show "fst (fst (SetGroupOffsets choices a grp topic offsets s)) = None"
      unfolding eq by (rule check_commit_errors_none)
  next
    fix e
    assume "fst (fst (SetGroupOffsets choices a grp topic offsets s)) = Some e"
    then have "check_commit_errors (range_map choices (topic_errors res topic)) = Some e"
      unfolding eq .
    from check_commit_errors_SomeD [OF this] obtain p err where
      m: "(p, err) \<in> set (topic_errors res topic)" and c: "err \<noteq> ErrNoError"
      and e: "e = withMessage (KErr err) ''failed to commit offset, partition=%d'' [ArgInt (sint p)]"
      by (auto simp: set_range_map)
    from m obtain entries where "res topic = Some entries" "(p, err) \<in> set entries"
      by (cases "res topic") (simp_all add: topic_errors_def)
    with c e show "\<exists>entries p err. res topic = Some entries \<and> (p, err) \<in> set entries \<and> err \<noteq> ErrNoError \<and>
               e = withMessage (KErr err) ''failed to commit offset, partition=%d'' [ArgInt (sint p)]"
      by blast
  qed
qed

lemma add_commit_blocks_fields:
  "map commit_fields xs = map commit_fields ys \<Longrightarrow>
   add_commit_blocks req topic xs = add_commit_blocks req topic ys"
proof (induction xs arbitrary: ys req)
  case Nil
  then show ?case by simp
next
  case (Cons x xs)
  then obtain y ys' where ys: "ys = y # ys'" by (cases ys) auto
  with Cons.prems have hd: "commit_fields x = commit_fields y" and tl: "map commit_fields xs = map commit_fields ys'"
    by auto
  from hd have "AddCommitBlock req topic (Partition x) (Offset x) ReceiveTime (Metadata x) =
      AddCommitBlock req topic (Partition y) (Offset y) ReceiveTime (Metadata y)"
    by (simp add: commit_fields_def)
  then show ?case unfolding ys using Cons.IH [OF tl] by simp
qed

text \<open>
  C9. Two record lists that agree on \<^verbatim>\<open>Partition\<close>, \<^verbatim>\<open>Offset\<close> and \<^verbatim>\<open>Metadata\<close> give the same
  commit request and the same outcome of \<^verbatim>\<open>SetGroupOffsets\<close>, error and state of the
  coordinator alike: \<^verbatim>\<open>Begin\<close> and \<^verbatim>\<open>End\<close> are not read.
\<close>

theorem SetGroupOffsets_reads_three_fields:
  assumes "map commit_fields xs = map commit_fields ys"
  shows "commit_request grp topic xs = commit_request grp topic ys \<and>
         SetGroupOffsets choices a grp topic xs s = SetGroupOffsets choices a grp topic ys s"
proof -
  have eq: "commit_request grp topic xs = commit_request grp topic ys"
    unfolding commit_request_def by (rule add_commit_blocks_fields [OF assms])
  show ?thesis unfolding SetGroupOffsets_def eq by simp
qed

subsection \<open>The example clusters under \<^verbatim>\<open>SetGroupOffsets\<close>\<close>

lemma lazyKafkaClt_admin_of:
  "lazyKafkaClt (admin_of clt conn) = (Inr clt, (admin_of clt conn)\<lparr>kafkaClt := Some clt\<rparr>)"
  by (simp add: lazyKafkaClt_def admin_of_def)

lemma rejecting_commit:
  "CommitOffset rejecting_clt 3 (commit_request ''g1'' ''orders'' [chk1_record]) demo_store =
     (((\<lambda>topic. Some [(0, 0), (1, 3), (2, 5)]), None), demo_store)"
  by (simp add: rejecting_clt_def demo_clt_def)

lemma demo_coordinator: "Coordinator demo_clt grp = (3, None)" "Coordinator rejecting_clt grp = (3, None)"
  by (simp_all add: rejecting_clt_def demo_clt_def)

lemma demo_commit_chk1:
  "CommitOffset demo_clt 3 (commit_request ''g1'' ''orders'' [chk1_record]) [] =
     (((\<lambda>topic. Some [(1, ErrNoError)]), None), demo_store)"
  by (simp add: demo_clt_def demo_commit_def commit_request_def AddCommitBlock_def chk1_record_def
      store_entry_def demo_store_def)

theorem SetGroupOffsets_first_visited_error_witness:
  "fst (fst (SetGroupOffsets [] (admin_of rejecting_clt demo_conn) ''g1'' ''orders'' [chk1_record] demo_store)) =
     Some (withMessage (KErr 3) ''failed to commit offset, partition=%d'' [ArgInt 1])
   \<and> fst (fst (SetGroupOffsets [2] (admin_of rejecting_clt demo_conn) ''g1'' ''orders'' [chk1_record] demo_store)) =
     Some (withMessage (KErr 5) ''failed to commit offset, partition=%d'' [ArgInt 2])
   \<and> fst (fst (SetGroupOffsets [0] (admin_of demo_clt demo_conn) ''g1'' ''orders'' [chk1_record] [])) = None"
proof -
  have e1: "fst (fst (SetGroupOffsets [] (admin_of rejecting_clt demo_conn) ''g1'' ''orders'' [chk1_record] demo_store)) =
     Some (withMessage (KErr 3) ''failed to commit offset, partition=%d'' [ArgInt 1])"
    using SetGroupOffsets_first_visited_error [OF lazyKafkaClt_admin_of demo_coordinator(2) rejecting_commit,
        where entries = "[(0, 0), (1, 3), (2, 5)]" and choices = "[]"
          and before = "[(0, 0)]" and p = 1 and err = 3 and later = "[(2, 5)]"]
    by (simp add: ErrNoError_def)
  have e2: "fst (fst (SetGroupOffsets [2] (admin_of rejecting_clt demo_conn) ''g1'' ''orders'' [chk1_record] demo_store)) =
     Some (withMessage (KErr 5) ''failed to commit offset, partition=%d'' [ArgInt 2])"
    using SetGroupOffsets_first_visited_error [OF lazyKafkaClt_admin_of demo_coordinator(2) rejecting_commit,
        where entries = "[(0, 0), (1, 3), (2, 5)]" and choices = "[2]"
          and before = "[]" and p = 2 and err = 5 and later = "[(0, 0), (1, 3)]"]
    by (simp add: ErrNoError_def)
  have e3: "fst (fst (SetGroupOffsets [0] (admin_of demo_clt demo_conn) ''g1'' ''orders'' [chk1_record] [])) = None"
    using SetGroupOffsets_first_visited_error [OF lazyKafkaClt_admin_of demo_coordinator(1) demo_commit_chk1,
        where entries = "[(1, 0)]" and choices = "[0]"
          and before = "[]" and p = 0 and err = 1 and later = "[]"]
    by simp
  show ?thesis using e1 e2 e3 by simp
qed

text \<open>
  C5, as stated, fails: in the response \<open>[(0, 0), (1, 3), (2, 5)]\<close> the first partition with
  a code other than success is \<open>1\<close>, and a run whose iteration visits the entry of
  partition \<open>2\<close> first returns the error of partition \<open>2\<close>.
\<close>

theorem SetGroupOffsets_reports_later_partition:
  "fst (fst (CommitOffset rejecting_clt 3 (commit_request ''g1'' ''orders'' [chk1_record]) demo_store)) ''orders'' =
     Some [(0, 0), (1, 3), (2, 5)]
   \<and> first_failure [(0, 0), (1, 3), (2, 5)] = Some (1, 3)
   \<and> fst (fst (SetGroupOffsets [2] (admin_of rejecting_clt demo_conn) ''g1'' ''orders'' [chk1_record] demo_store)) =
     Some (withMessage (KErr 5) ''failed to commit offset, partition=%d'' [ArgInt 2])"
proof -
  have "first_failure [(0, 0), (1, 3), (2, 5)] = Some (1, 3)"
    by (simp add: first_failure_def ErrNoError_def)
  moreover have "fst (fst (SetGroupOffsets [2] (admin_of rejecting_clt demo_conn) ''g1'' ''orders'' [chk1_record] demo_store)) =
     Some (withMessage (KErr 5) ''failed to commit offset, partition=%d'' [ArgInt 2])"
    by (simp add: SetGroupOffsets_round_trip [OF lazyKafkaClt_admin_of demo_coordinator(2) rejecting_commit]
        topic_errors_def ErrNoError_def)
  ultimately show ?thesis by (simp add: rejecting_commit)
qed

theorem SetGroupOffsets_reads_three_fields_witness:
  "commit_request ''g1'' ''orders'' [chk1_record] =
     commit_request ''g1'' ''orders'' [chk1_record\<lparr>Begin := 7, End := 9\<rparr>]
   \<and> SetGroupOffsets [] (admin_of demo_clt demo_conn) ''g1'' ''orders'' [chk1_record] demo_store =
     SetGroupOffsets [] (admin_of demo_clt demo_conn) ''g1'' ''orders'' [chk1_record\<lparr>Begin := 7, End := 9\<rparr>] demo_store"
  using SetGroupOffsets_reads_three_fields [of "[chk1_record]" "[chk1_record\<lparr>Begin := 7, End := 9\<rparr>]"
      "''g1''" "''orders''" "[]" "admin_of demo_clt demo_conn" demo_store]
  by (simp add: commit_fields_def)

subsection \<open>\<^verbatim>\<open>GetTopicConsumers\<close>\<close>

lemma collect_owners_nonempty:
  "collect_owners conn path nodes consumers = Inr m \<Longrightarrow>
   (\<And>c ps. map_of consumers c = Some ps \<Longrightarrow> ps \<noteq> []) \<Longrightarrow>
   map_of m clientID = Some ps \<Longrightarrow> ps \<noteq> []"
proof (induction nodes arbitrary: consumers)
  case Nil
  then show ?case by simp
next
  case (Cons node nodes)
  obtain v aerr where at: "Atoi node = (v, aerr)" by (cases "Atoi node")
  obtain owner gerr where gt: "Get conn (path @ ''/'' @ node) = (owner, gerr)"
    by (cases "Get conn (path @ ''/'' @ node)")
  from Cons.prems(1) at gt have ok: "aerr = None" "gerr = None"
    by (auto split: option.splits)
  let ?next = "AList.update owner (lookup_slice consumers owner @ [word_of_int v]) consumers"
  from Cons.prems(1) at gt ok have run: "collect_owners conn path nodes ?next = Inr m"
    by simp
  have "\<And>c qs. map_of ?next c = Some qs \<Longrightarrow> qs \<noteq> []"
    using Cons.prems(2) by (auto simp: update_conv' split: if_splits)
  from Cons.IH [OF run this Cons.prems(3)] show ?case .
qed

lemma map_of_sort_consumers:
  "map_of (sort_consumers consumers) c = map_option sort_int32Slice (map_of consumers c)"
  unfolding sort_consumers_def by (induction consumers) auto

lemma GetTopicConsumers_success:
  assumes "fst (GetTopicConsumers a grp topic) = (Some consumers, err)"
  shows "\<exists>conn a' nodes m. lazyZKConn a = (Inr conn, a') \<and>
           Children conn (Chroot a' @ ''/consumers/'' @ grp @ ''/owners/'' @ topic) = (nodes, None) \<and>
           collect_owners conn (Chroot a' @ ''/consumers/'' @ grp @ ''/owners/'' @ topic) nodes [] = Inr m \<and>
           consumers = sort_consumers m \<and> err = None"
  using assms unfolding GetTopicConsumers_def
  by (auto simp: Let_def split: prod.splits sum.splits option.splits if_splits)

text \<open>
  C10. A map returned by \<^verbatim>\<open>GetTopicConsumers\<close> has no client with an empty partition list.
\<close>

theorem GetTopicConsumers_lists_nonempty:
  assumes "fst (GetTopicConsumers a grp topic) = (Some consumers, None)"
    and "map_of consumers clientID = Some ps"
  shows "ps \<noteq> []"
proof -
  from GetTopicConsumers_success [OF assms(1)] obtain conn path nodes m where
    run: "collect_owners conn path nodes [] = Inr m" and c: "consumers = sort_consumers m"
    by blast
  from assms(2) c obtain qs where qs: "map_of m clientID = Some qs" and ps: "ps = sort_int32Slice qs"
    by (auto simp: map_of_sort_consumers)
  have "qs \<noteq> []" using collect_owners_nonempty [OF run _ qs] by simp
  then show ?thesis using ps by (auto simp: sort_int32Slice_def dest: arg_cong [where f = length])
qed

lemma collect_owners_distinct:
  "collect_owners conn path nodes consumers = Inr m \<Longrightarrow>
   distinct (map node_partition nodes) \<Longrightarrow>
   (\<And>c ps. map_of consumers c = Some ps \<Longrightarrow> distinct ps \<and> set ps \<inter> node_partition ` set nodes = {}) \<Longrightarrow>
   map_of m clientID = Some ps \<Longrightarrow> distinct ps"
proof (induction nodes arbitrary: consumers)
  case Nil
  then show ?case by simp
next
  case (Cons node nodes)
  obtain v aerr where at: "Atoi node = (v, aerr)" by (cases "Atoi node")
  obtain owner gerr where gt: "Get conn (path @ ''/'' @ node) = (owner, gerr)"
    by (cases "Get conn (path @ ''/'' @ node)")
  from Cons.prems(1) at gt have ok: "aerr = None" "gerr = None"
    by (auto split: option.splits)
  have v: "word_of_int v = node_partition node" by (simp add: node_partition_def at)
  let ?next = "AList.update owner (lookup_slice consumers owner @ [node_partition node]) consumers"
  from Cons.prems(1) at gt ok v have run: "collect_owners conn path nodes ?next = Inr m"
    by simp
  from Cons.prems(2) have d: "distinct (map node_partition nodes)"
    and fresh: "node_partition node \<notin> node_partition ` set nodes" by auto
  have inv: "distinct qs \<and> set qs \<inter> node_partition ` set nodes = {}"
    if "map_of ?next c = Some qs" for c qs
  proof (cases "c = owner")
    case True
    with that have qs: "qs = lookup_slice consumers owner @ [node_partition node]"
      by (simp add: update_conv')
    have old: "distinct (lookup_slice consumers owner) \<and>
        set (lookup_slice consumers owner) \<inter> node_partition ` set (node # nodes) = {}"
      using Cons.prems(3) [of owner] by (auto simp: lookup_slice_def split: option.splits)
    then show ?thesis using qs fresh by auto
  next
    case False
    with that have "map_of consumers c = Some qs" by (simp add: update_conv')
    from Cons.prems(3) [OF this] show ?thesis by auto
  qed
  from Cons.IH [OF run d inv Cons.prems(4)] show ?case .
qed

lemma ascending_sort: "ascending (sort_int32Slice ps)"
  unfolding ascending_def sort_int32Slice_def
  using sorted_sort_key [of sint ps] by (simp add: sorted_map)

lemma strictly_ascending_sort: "distinct ps \<Longrightarrow> strictly_ascending (sort_int32Slice ps)"
proof -
  assume "distinct ps"
  then have "distinct (map sint (sort_key sint ps))"
    by (auto simp: distinct_map inj_on_def intro: signed_word_eqI)
  with sorted_sort_key [of sint ps] have "sorted_wrt (<) (map sint (sort_key sint ps))"
    by (simp add: strict_sorted_iff)
  then show ?thesis
    unfolding strictly_ascending_def sort_int32Slice_def by (simp add: sorted_wrt_map)
qed

text \<open>
  C7, as amended. In a map returned by \<^verbatim>\<open>GetTopicConsumers\<close> the partition list of every
  client is ascending, and it is strictly ascending, without a duplicate, when the names
  of the child nodes stand for partition ids that differ from each other.
\<close>

theorem GetTopicConsumers_ascending:
  assumes "lazyZKConn a = (Inr conn, a')"
    and "Children conn (Chroot a' @ ''/consumers/'' @ grp @ ''/owners/'' @ topic) = (partitionNodes, None)"
    and "fst (GetTopicConsumers a grp topic) = (Some consumers, None)"
    and "map_of consumers clientID = Some ps"
  shows "ascending ps \<and> (distinct (map node_partition partitionNodes) \<longrightarrow> strictly_ascending ps)"
proof -
  from GetTopicConsumers_success [OF assms(3)] assms(1,2) obtain m where
    run: "collect_owners conn (Chroot a' @ ''/consumers/'' @ grp @ ''/owners/'' @ topic) partitionNodes [] = Inr m"
    and c: "consumers = sort_consumers m"
    by auto
  from assms(4) c obtain qs where qs: "map_of m clientID = Some qs" and ps: "ps = sort_int32Slice qs"
    by (auto simp: map_of_sort_consumers)
  have "distinct qs" if "distinct (map node_partition partitionNodes)"
    using collect_owners_distinct [OF run that _ qs] by simp
  then show ?thesis using ps by (simp add: ascending_sort strictly_ascending_sort)
qed

lemma lazyZKConn_admin_of:
  "lazyZKConn (admin_of clt conn) = (Inr conn, (admin_of clt conn)\<lparr>zkConn := Some conn\<rparr>)"
  by (simp add: lazyZKConn_def admin_of_def)

lemma demo_owners:
  "fst (GetTopicConsumers (admin_of demo_clt demo_conn) ''g1'' ''orders'') =
     (Some [(''clientA'', [0, 1]), (''clientB'', [2])], None)"
  by code_simp

theorem GetTopicConsumers_lists_nonempty_witness:
  "fst (GetTopicConsumers (admin_of demo_clt demo_conn) ''g1'' ''orders'') =
     (Some [(''clientA'', [0, 1]), (''clientB'', [2])], None)
   \<and> map_of [(''clientA'', [0, 1 :: int32]), (''clientB'', [2])] ''clientA'' = Some [0, 1]
   \<and> [0, 1 :: int32] \<noteq> []"
  using GetTopicConsumers_lists_nonempty [OF demo_owners, of "''clientA''" "[0, 1]"] demo_owners
  by simp

theorem GetTopicConsumers_ascending_witness:
  "fst (GetTopicConsumers (admin_of demo_clt demo_conn) ''g1'' ''orders'') =
     (Some [(''clientA'', [0, 1]), (''clientB'', [2])], None)
   \<and> distinct (map node_partition [''0'', ''1'', ''2''])
   \<and> ascending [0, 1] \<and> strictly_ascending [0, 1]"
proof -
  have ch: "Children demo_conn
      (Chroot ((admin_of demo_clt demo_conn)\<lparr>zkConn := Some demo_conn\<rparr>) @ ''/consumers/'' @ ''g1'' @ ''/owners/'' @ ''orders'') =
      ([''0'', ''1'', ''2''], None)"
    by (simp add: admin_of_def demo_conn_def)
  have m: "map_of [(''clientA'', [0, 1 :: int32]), (''clientB'', [2])] ''clientA'' = Some [0, 1]"
    by simp
  have d: "distinct (map node_partition [''0'', ''1'', ''2''])"
    by (simp add: node_partition_def Atoi_def is_digit_def)
  show ?thesis
    using GetTopicConsumers_ascending [OF lazyZKConn_admin_of ch demo_owners m] demo_owners d
    by simp
qed

text \<open>
  C7, as stated, fails: the child nodes \<open>1\<close> and \<open>01\<close> are two names of partition 1, and a
  client that owns both gets the list \<open>[1, 1]\<close>.
\<close>

theorem GetTopicConsumers_twin_nodes:
  "fst (GetTopicConsumers (admin_of demo_clt twin_conn) ''g1'' ''orders'') = (Some [(''clientA'', [1, 1])], None)
   \<and> \<not> strictly_ascending [1, 1]"
proof -
  have "fst (GetTopicConsumers (admin_of demo_clt twin_conn) ''g1'' ''orders'') = (Some [(''clientA'', [1, 1])], None)"
    by code_simp
  moreover have "\<not> strictly_ascending [1, 1]"
    by (simp add: strictly_ascending_def)
  ultimately show ?thesis by simp
qed

subsection \<open>The kind test and \<^verbatim>\<open>GetAllTopicConsumers\<close>\<close>

lemma assert_ErrInvalidParam_Some: "assert_ErrInvalidParam (Some err)"
  by (cases err) simp_all

lemma scan_groups_never_aborts:
  "\<exists>m a'. scan_groups a topic groups consumers = ((Some m, None), a')"
proof (induction groups arbitrary: a consumers)
  case Nil
  then show ?case by simp
next
  case (Cons g groups)
  obtain r err a1 where g: "GetTopicConsumers a g topic = ((r, err), a1)"
    by (metis prod.exhaust)
  show ?case
  proof (cases err)
    case None
    then show ?thesis using g Cons.IH by (cases r) (simp_all)
  next
    case (Some e)
    then show ?thesis using g Cons.IH by (cases r) (simp_all add: assert_ErrInvalidParam_Some del: assert_ErrInvalidParam.simps)
  qed
qed

text \<open>
  C6. The error that \<^verbatim>\<open>GetTopicConsumers\<close> returns when the tree store cannot be read
  (group \<open>g3\<close>) passes the assertion \<^verbatim>\<open>err.(ErrInvalidParam)\<close>, as the error for a missing
  ownership node (group \<open>g2\<close>) does.
\<close>

theorem GetTopicConsumers_kind_test:
  "fst (GetTopicConsumers (admin_of demo_clt demo_conn) ''g3'' ''orders'') =
     (None, Some (withMessage (external ''zk: connection closed'') ''failed to fetch partition owners data'' []))
   \<and> assert_ErrInvalidParam (snd (fst (GetTopicConsumers (admin_of demo_clt demo_conn) ''g3'' ''orders'')))
   \<and> fst (GetTopicConsumers (admin_of demo_clt demo_conn) ''g2'' ''orders'') =
     (None, Some (fundamental ''either group or topic is incorrect'' []))
   \<and> assert_ErrInvalidParam (snd (fst (GetTopicConsumers (admin_of demo_clt demo_conn) ''g2'' ''orders'')))"
  by code_simp

text \<open>
  C3. The scan of group \<open>g3\<close> fails with a connection error, and \<^verbatim>\<open>GetAllTopicConsumers\<close>
  still returns the groups collected, without an error.
\<close>

theorem GetAllTopicConsumers_swallows_every_error:
  "fst (GetAllTopicConsumers (admin_of demo_clt demo_conn) ''orders'') =
     (Some [(''g1'', [(''clientA'', [0, 1]), (''clientB'', [2])])], None)"
  by code_simp

subsection \<open>\<^verbatim>\<open>GetGroupOffsets\<close>\<close>

text \<open>A schedule runs every step of every task.\<close>

lemma steps_of_updated_tasks:
  assumes "k < length tasks" "tasks ! k = step # steps"
  shows "(\<Union>t\<in>set tasks. set t) = insert step (\<Union>t\<in>set (tasks[k := steps]). set t)"
proof -
  define before where "before = take k tasks"
  define after where "after = drop (Suc k) tasks"
  have t: "tasks = before @ (step # steps) # after"
    unfolding before_def after_def using assms by (metis id_take_nth_drop)
  have u: "tasks[k := steps] = before @ steps # after"
    unfolding before_def after_def using assms(1) by (rule upd_conv_take_nth_drop)
  have "(\<Union>t\<in>set (before @ (step # steps) # after). set t) =
      insert step (\<Union>t\<in>set (before @ steps # after). set t)"
    by auto
  then show ?thesis unfolding u by (subst t) simp
qed

lemma set_interleave: "set (interleave sched tasks) = (\<Union>t\<in>set tasks. set t)"
proof (induction sched arbitrary: tasks)
  case Nil
  then show ?case by simp
next
  case (Cons k sched)
  show ?case
  proof (cases "k < length tasks")
    case False
    then show ?thesis using Cons.IH by simp
  next
    case True
    show ?thesis
    proof (cases "tasks ! k")
      case Nil
      then show ?thesis using True Cons.IH by simp
    next
      case (Cons step steps)
      from steps_of_updated_tasks [OF True Cons] show ?thesis
        using True Cons Cons.IH [of "tasks[k := steps]"] by simp
    qed
  qed
qed

text \<open>Every order of the steps is the outcome of some schedule.\<close>

lemma every_task_order_scheduled:
  "task_order tasks order \<Longrightarrow> \<exists>sched. interleave sched tasks = order"
proof (induction rule: task_order.induct)
  case (finished tasks)
  then have "interleave [] tasks = []" by simp
  then show ?case by blast
next
  case (next_step k tasks step steps order)
  then obtain sched where "interleave sched (tasks[k := steps]) = order" by blast
  with next_step.hyps(1,2) have "interleave (k # sched) tasks = step # order" by simp
  then show ?case by blast
qed

text \<open>What the steps do to the array and to the error channel.\<close>

lemma length_exec_event: "length (fst (exec_event ev st)) = length (fst st)"
  by (cases ev; cases st) simp_all

lemma length_fold_exec_event: "length (fst (fold exec_event evs st)) = length (fst st)"
  by (induction evs arbitrary: st) (simp_all add: length_exec_event)

lemma channel_exec_event:
  "snd (exec_event ev st) = snd st @ (case ev of SendErr e \<Rightarrow> [e] | _ \<Rightarrow> [])"
  by (cases ev; cases st) simp_all

lemma channel_fold_exec_event:
  "set (snd (fold exec_event evs st)) = set (snd st) \<union> {e. SendErr e \<in> set evs}"
proof (induction evs arbitrary: st)
  case Nil
  then show ?case by simp
next
  case (Cons ev evs)
  show ?case by (cases ev) (auto simp: Cons.IH channel_exec_event)
qed

lemma Partition_exec_event:
  assumes "i < length (fst st)"
  shows "Partition (fst (exec_event ev st) ! i) =
     (case ev of SetPartition j q \<Rightarrow> if j = i then q else Partition (fst st ! i)
               | _ \<Rightarrow> Partition (fst st ! i))"
proof (cases st)
  case (Pair offsets errorsCh)
  show ?thesis
  proof (cases ev)
    case (SetPartition j q)
    then show ?thesis using Pair assms by (cases "j = i") simp_all
  next
    case (SetBegin j b)
    then show ?thesis using Pair assms by (cases "j = i") simp_all
  next
    case (SetEnd j e)
    then show ?thesis using Pair assms by (cases "j = i") simp_all
  next
    case (SendErr e)
    then show ?thesis using Pair by simp
  qed
qed

lemma Partition_fold_exec_event:
  assumes "\<And>j q. SetPartition j q \<in> set evs \<Longrightarrow> q = partitions ! j"
    and "i < length (fst st)"
    and "Partition (fst st ! i) = partitions ! i \<or> (\<exists>q. SetPartition i q \<in> set evs)"
  shows "Partition (fst (fold exec_event evs st) ! i) = partitions ! i"
  using assms
proof (induction evs arbitrary: st)
  case Nil
  then show ?case by simp
next
  case (Cons ev evs)
  have consistent: "\<And>j q. SetPartition j q \<in> set evs \<Longrightarrow> q = partitions ! j"
    using Cons.prems(1) by simp
  have len: "i < length (fst (exec_event ev st))"
    using Cons.prems(2) by (simp add: length_exec_event)
  have "Partition (fst (exec_event ev st) ! i) = partitions ! i \<or> (\<exists>q. SetPartition i q \<in> set evs)"
  proof (cases ev)
    case (SetPartition j q)
    then have "q = partitions ! j" using Cons.prems(1) by simp
    then show ?thesis
      using Cons.prems(2,3) SetPartition by (auto simp: Partition_exec_event)
  qed (use Cons.prems(2,3) in \<open>auto simp: Partition_exec_event\<close>)
  from Cons.IH [OF consistent len this] show ?case by simp
qed

text \<open>
  The buckets hold every position of the partition list, and nothing else. So every
  index that a task writes, and every index of the last loop, is inside the array, and
  the index panic of Go cannot occur.
\<close>

lemma bucket_entries_update_general:
  "bucket_entries (AList.update broker (pre @ lookup_bucket m broker @ [xp]) m) =
     set pre \<union> insert xp (bucket_entries m)"
  by (induction m) (auto simp: bucket_entries_def lookup_bucket_def split: option.splits)

lemma bucket_entries_update:
  "bucket_entries (AList.update broker (lookup_bucket m broker @ [xp]) m) = insert xp (bucket_entries m)"
  using bucket_entries_update_general [of broker "[]" m xp] by simp

lemma bucket_entries_group_by_leader:
  "group_by_leader clt topic ips m = Inr brokerToPartitions \<Longrightarrow>
   bucket_entries brokerToPartitions =
     bucket_entries m \<union> (\<lambda>ip. \<lparr>xp_index = fst ip, xp_partition = snd ip\<rparr>) ` set ips"
proof (induction ips arbitrary: m)
  case Nil
  then show ?case by simp
next
  case (Cons ip ips)
  obtain i p where ip: "ip = (i, p)" by (cases ip)
  obtain broker err where l: "Leader clt topic p = (broker, err)" by (cases "Leader clt topic p")
  from Cons.prems ip l have err: "err = None" by (cases err) simp_all
  let ?next = "AList.update broker (lookup_bucket m broker @ [\<lparr>xp_index = i, xp_partition = p\<rparr>]) m"
  from Cons.prems ip l err have "group_by_leader clt topic ips ?next = Inr brokerToPartitions"
    by simp
  from Cons.IH [OF this] show ?case
    by (simp add: bucket_entries_update ip)
qed

lemma in_enumerate_partitions:
  "(i, p) \<in> set (enumerate 0 partitions) \<longleftrightarrow> i < length partitions \<and> p = partitions ! i"
  by (auto simp: in_set_enumerate_eq)

lemma bucket_entries_of_partitions:
  assumes "group_by_leader clt topic (enumerate 0 partitions) [] = Inr brokerToPartitions"
  shows "xp \<in> bucket_entries brokerToPartitions \<longleftrightarrow>
         xp_index xp < length partitions \<and> xp_partition xp = partitions ! xp_index xp"
proof -
  have "xp \<in> (\<lambda>ip. \<lparr>xp_index = fst ip, xp_partition = snd ip\<rparr>) ` set (enumerate 0 partitions) \<longleftrightarrow>
      (xp_index xp, xp_partition xp) \<in> set (enumerate 0 partitions)"
    by (cases xp) force
  then show ?thesis
    using bucket_entries_group_by_leader [OF assms]
    by (simp add: bucket_entries_def in_enumerate_partitions)
qed

text \<open>The steps of one task.\<close>

lemma block_unusable_iff:
  "block_unusable res topic p \<longleftrightarrow> snd (getOffsetResult res topic p) \<noteq> None"
  by (auto simp: getOffsetResult_def block_unusable_def Errorf_def split: option.splits)

lemma Wrapf_eq_None: "Wrapf err format args = None \<longleftrightarrow> err = None"
  by (cases err) simp_all

lemma write_ranges_step:
  "write_ranges brokerID resOldest resNewest topic (xp # xps) =
     (if snd (getOffsetResult resOldest topic (xp_partition xp)) \<noteq> None
      then [SendErr (Wrapf (snd (getOffsetResult resOldest topic (xp_partition xp)))
                      ''failed to fetch oldest offset, broker=%v'' [ArgInt (sint brokerID)])]
      else if snd (getOffsetResult resNewest topic (xp_partition xp)) \<noteq> None
      then [SendErr (Wrapf (snd (getOffsetResult resNewest topic (xp_partition xp)))
                      ''failed to fetch newest offset, broker=%v'' [ArgInt (sint brokerID)])]
      else [SetPartition (xp_index xp) (xp_partition xp),
            SetBegin (xp_index xp) (fst (getOffsetResult resOldest topic (xp_partition xp))),
            SetEnd (xp_index xp) (fst (getOffsetResult resNewest topic (xp_partition xp)))]
           @ write_ranges brokerID resOldest resNewest topic xps)"
  by (auto split: prod.splits option.splits)

lemma write_ranges_SetPartition:
  "SetPartition j q \<in> set (write_ranges brokerID resOldest resNewest topic xps) \<Longrightarrow>
   \<lparr>xp_index = j, xp_partition = q\<rparr> \<in> set xps"
  by (induction xps) (auto simp: write_ranges_step simp del: write_ranges.simps(2) split: if_splits)

lemma write_ranges_complete:
  "\<forall>e. SendErr e \<notin> set (write_ranges brokerID resOldest resNewest topic xps) \<Longrightarrow> xp \<in> set xps \<Longrightarrow>
   SetPartition (xp_index xp) (xp_partition xp) \<in> set (write_ranges brokerID resOldest resNewest topic xps)"
  by (induction xps) (auto simp: write_ranges_step simp del: write_ranges.simps(2) split: if_splits)

lemma write_ranges_SendErr:
  "SendErr e \<in> set (write_ranges brokerID resOldest resNewest topic xps) \<Longrightarrow> e \<noteq> None"
  by (induction xps)
    (auto simp: write_ranges_step Wrapf_eq_None simp del: write_ranges.simps(2) split: if_splits)

lemma write_ranges_fails:
  "list_ex (\<lambda>xp. block_unusable resOldest topic (xp_partition xp) \<or>
                  block_unusable resNewest topic (xp_partition xp)) xps \<Longrightarrow>
   \<exists>e. SendErr e \<in> set (write_ranges brokerID resOldest resNewest topic xps)"
  by (induction xps)
    (auto simp: write_ranges_step block_unusable_iff simp del: write_ranges.simps(2))

lemma offset_fetcher_eq:
  "offset_fetcher clt topic bucket =
     (let reqs = add_offset_blocks topic (snd bucket) (\<lparr>or_blocks = []\<rparr>, \<lparr>or_blocks = []\<rparr>);
          oldest = GetAvailableOffsets clt (fst bucket) (snd reqs);
          newest = GetAvailableOffsets clt (fst bucket) (fst reqs)
      in if snd oldest \<noteq> None
         then [SendErr (Wrapf (snd oldest) ''failed to fetch oldest offset, broker=%v''
                         [ArgInt (sint (ID clt (fst bucket)))])]
         else if snd newest \<noteq> None
         then [SendErr (Wrapf (snd newest) ''failed to fetch newest offset, broker=%v''
                         [ArgInt (sint (ID clt (fst bucket)))])]
         else write_ranges (ID clt (fst bucket)) (fst oldest) (fst newest) topic (snd bucket))"
  unfolding offset_fetcher_def by (auto simp: Let_def split: prod.splits option.splits)

lemma range_query_fails_eq:
  "range_query_fails clt topic bucket =
     (let reqs = add_offset_blocks topic (snd bucket) (\<lparr>or_blocks = []\<rparr>, \<lparr>or_blocks = []\<rparr>);
          oldest = GetAvailableOffsets clt (fst bucket) (snd reqs);
          newest = GetAvailableOffsets clt (fst bucket) (fst reqs)
      in snd oldest \<noteq> None \<or> snd newest \<noteq> None \<or>
         list_ex (\<lambda>xp. block_unusable (fst oldest) topic (xp_partition xp) \<or>
                        block_unusable (fst newest) topic (xp_partition xp)) (snd bucket))"
  unfolding range_query_fails_def by (auto simp: Let_def split: prod.splits)

lemma offset_fetcher_SetPartition:
  "SetPartition j q \<in> set (offset_fetcher clt topic bucket) \<Longrightarrow>
   \<lparr>xp_index = j, xp_partition = q\<rparr> \<in> set (snd bucket)"
  by (auto simp: offset_fetcher_eq Let_def split: if_splits dest: write_ranges_SetPartition)

lemma offset_fetcher_complete:
  "\<forall>e. SendErr e \<notin> set (offset_fetcher clt topic bucket) \<Longrightarrow> xp \<in> set (snd bucket) \<Longrightarrow>
   SetPartition (xp_index xp) (xp_partition xp) \<in> set (offset_fetcher clt topic bucket)"
  by (auto simp: offset_fetcher_eq Let_def split: if_splits intro: write_ranges_complete)

lemma offset_fetcher_SendErr:
  "SendErr e \<in> set (offset_fetcher clt topic bucket) \<Longrightarrow> e \<noteq> None"
  by (auto simp: offset_fetcher_eq Let_def Wrapf_eq_None split: if_splits dest: write_ranges_SendErr)

lemma offset_fetcher_fails:
  "range_query_fails clt topic bucket \<Longrightarrow> \<exists>e. SendErr e \<in> set (offset_fetcher clt topic bucket)"
  by (auto simp: offset_fetcher_eq range_query_fails_eq Let_def dest: write_ranges_fails)

text \<open>The outcome of the fan-out.\<close>

lemma query_brokers_length:
  "length (fst (query_brokers sched clt topic partitions brokerToPartitions)) = length partitions"
  by (simp add: query_brokers_def length_fold_exec_event)

lemma query_brokers_channel:
  "set (snd (query_brokers sched clt topic partitions brokerToPartitions)) =
     {e. \<exists>bucket\<in>set brokerToPartitions. SendErr e \<in> set (offset_fetcher clt topic bucket)}"
  by (auto simp: query_brokers_def channel_fold_exec_event set_interleave)

lemma query_brokers_Partition:
  assumes buckets: "group_by_leader clt topic (enumerate 0 partitions) [] = Inr brokerToPartitions"
    and quiet: "snd (query_brokers sched clt topic partitions brokerToPartitions) = []"
    and i: "i < length partitions"
  shows "Partition (fst (query_brokers sched clt topic partitions brokerToPartitions) ! i) = partitions ! i"
proof -
  let ?evs = "interleave sched (map (offset_fetcher clt topic) brokerToPartitions)"
  have no_err: "SendErr e \<notin> set (offset_fetcher clt topic bucket)"
    if "bucket \<in> set brokerToPartitions" for bucket e
    using query_brokers_channel [of sched clt topic partitions brokerToPartitions] quiet that
    by auto
  have consistent: "q = partitions ! j" if "SetPartition j q \<in> set ?evs" for j q
  proof -
    from that obtain bucket where b: "bucket \<in> set brokerToPartitions"
      and "SetPartition j q \<in> set (offset_fetcher clt topic bucket)"
      by (auto simp: set_interleave)
    then have "\<lparr>xp_index = j, xp_partition = q\<rparr> \<in> bucket_entries brokerToPartitions"
      by (auto simp: bucket_entries_def dest: offset_fetcher_SetPartition)
    then show ?thesis by (simp add: bucket_entries_of_partitions [OF buckets])
  qed
  have "\<lparr>xp_index = i, xp_partition = partitions ! i\<rparr> \<in> bucket_entries brokerToPartitions"
    using i by (simp add: bucket_entries_of_partitions [OF buckets])
  then obtain bucket where b: "bucket \<in> set brokerToPartitions"
    and xp: "\<lparr>xp_index = i, xp_partition = partitions ! i\<rparr> \<in> set (snd bucket)"
    by (auto simp: bucket_entries_def)
  have "SetPartition i (partitions ! i) \<in> set (offset_fetcher clt topic bucket)"
    using offset_fetcher_complete [OF _ xp, of clt topic] no_err [OF b] by simp
  then have written: "\<exists>q. SetPartition i q \<in> set ?evs"
    using b by (auto simp: set_interleave)
  show ?thesis
    unfolding query_brokers_def
    by (rule Partition_fold_exec_event) (use consistent i written in auto)
qed

text \<open>The last loop keeps the length of the array and its \<^verbatim>\<open>Partition\<close> fields.\<close>

lemma fill_committed_shape:
  "fill_committed res topic ips offsets = (Some result, err) \<Longrightarrow>
   err = None \<and> length result = length offsets \<and>
   (\<forall>i. Partition (result ! i) = Partition (offsets ! i))"
proof (induction ips arbitrary: offsets)
  case Nil
  then show ?case by simp
next
  case (Cons ip ips)
  obtain i p where ip: "ip = (i, p)" by (cases ip)
  from Cons.prems ip obtain block where block: "res topic p = Some block"
    by (cases "res topic p") simp_all
  let ?next = "offsets[i := (offsets ! i)\<lparr>Offset := fb_Offset block, Metadata := fb_Metadata block\<rparr>]"
  from Cons.prems ip block have "fill_committed res topic ips ?next = (Some result, err)"
    by simp
  from Cons.IH [OF this] have "err = None" "length result = length offsets"
    and "\<And>k. Partition (result ! k) = Partition (?next ! k)" by simp_all
  moreover have "Partition (?next ! k) = Partition (offsets ! k)" for k
    by (cases "k = i"; cases "i < length offsets") (simp_all add: list_update_beyond)
  ultimately show ?case by simp
qed

text \<open>The runs of \<^verbatim>\<open>GetGroupOffsets\<close> that return an array.\<close>

lemma GetGroupOffsets_array:
  assumes "lazyKafkaClt a = (Inr clt, a')"
    and "fst (GetGroupOffsets sched a grp topic s) = (Some result, err)"
  shows "\<exists>partitions brokerToPartitions offsets res.
           Partitions clt topic = (partitions, None) \<and>
           group_by_leader clt topic (enumerate 0 partitions) [] = Inr brokerToPartitions \<and>
           query_brokers sched clt topic partitions brokerToPartitions = (offsets, []) \<and>
           Coordinator clt grp = (fst (Coordinator clt grp), None) \<and>
           FetchOffset clt (fst (Coordinator clt grp)) (fetch_request grp topic partitions) s = (res, None) \<and>
           fill_committed res topic (enumerate 0 partitions) offsets = (Some result, err)"
  using assms unfolding GetGroupOffsets_def fetch_committed_def
  by (auto split: prod.splits sum.splits option.splits list.splits)

lemma GetGroupOffsets_array_positions:
  assumes "lazyKafkaClt a = (Inr clt, a')"
    and "fst (GetGroupOffsets sched a grp topic s) = (Some result, err)"
  shows "length result = length (fst (Partitions clt topic)) \<and>
         (\<forall>i<length result. Partition (result ! i) = fst (Partitions clt topic) ! i)"
proof -
  from GetGroupOffsets_array [OF assms] obtain partitions brokerToPartitions offsets res where
    p: "Partitions clt topic = (partitions, None)"
    and g: "group_by_leader clt topic (enumerate 0 partitions) [] = Inr brokerToPartitions"
    and q: "query_brokers sched clt topic partitions brokerToPartitions = (offsets, [])"
    and f: "fill_committed res topic (enumerate 0 partitions) offsets = (Some result, err)"
    by blast
  from fill_committed_shape [OF f] have len: "length result = length offsets"
    and same: "\<And>i. Partition (result ! i) = Partition (offsets ! i)" by simp_all
  have len': "length offsets = length partitions"
    using query_brokers_length [of sched clt topic partitions brokerToPartitions] q by simp
  have "Partition (offsets ! i) = partitions ! i" if "i < length partitions" for i
    using query_brokers_Partition [OF g _ that, of sched] q by simp
  then show ?thesis using p len len' same by simp
qed

text \<open>
  C1. An array returned by \<^verbatim>\<open>GetGroupOffsets\<close> is as long as the partition list that
  \<^verbatim>\<open>Partitions\<close> returned, and its \<open>i\<close>-th element carries the \<open>i\<close>-th partition of that list,
  for every assignment of leaders and every schedule of the tasks.
\<close>

theorem GetGroupOffsets_positions:
  assumes "lazyKafkaClt a = (Inr clt, a')"
    and "fst (GetGroupOffsets sched a grp topic s) = (Some result, err)"
  shows "length result = length (fst (Partitions clt topic)) \<and>
         (\<forall>i<length result. Partition (result ! i) = fst (Partitions clt topic) ! i)"
  using assms by (rule GetGroupOffsets_array_positions)

text \<open>
  C4. When the offset-range query of one broker fails, by a transport error, a missing
  block, a remote error code or an empty offsets list, \<^verbatim>\<open>GetGroupOffsets\<close> returns an error
  and no array, for every schedule of the tasks.
\<close>

theorem GetGroupOffsets_all_or_nothing:
  assumes "lazyKafkaClt a = (Inr clt, a')"
    and "Partitions clt topic = (partitions, None)"
    and "group_by_leader clt topic (enumerate 0 partitions) [] = Inr brokerToPartitions"
    and "bucket \<in> set brokerToPartitions"
    and "range_query_fails clt topic bucket"
  shows "\<exists>err. fst (GetGroupOffsets sched a grp topic s) = (None, Some err)"
proof -
  obtain offsets errorsCh where q: "query_brokers sched clt topic partitions brokerToPartitions = (offsets, errorsCh)"
    by (cases "query_brokers sched clt topic partitions brokerToPartitions")
  from offset_fetcher_fails [OF assms(5)] obtain e where "SendErr e \<in> set (offset_fetcher clt topic bucket)"
    by blast
  with assms(4) have "e \<in> set errorsCh"
    using query_brokers_channel [of sched clt topic partitions brokerToPartitions] q by auto
  then obtain first rest where ch: "errorsCh = first # rest" by (cases errorsCh) auto
  then have "first \<in> set (snd (query_brokers sched clt topic partitions brokerToPartitions))"
    using q by simp
  then have "first \<noteq> None"
    unfolding query_brokers_channel by (auto dest: offset_fetcher_SendErr)
  then obtain err where "first = Some err" by auto
  then show ?thesis
    using assms(1-3) q ch by (simp add: GetGroupOffsets_def)
qed

lemma demo_offsets:
  "fst (GetGroupOffsets [1, 0, 0] (admin_of demo_clt demo_conn) ''g1'' ''orders'' demo_store) =
     (Some [\<lparr>Partition = 0, Begin = 100, End = 150, Offset = - 1, Metadata = []\<rparr>,
            \<lparr>Partition = 1, Begin = 20, End = 40, Offset = 42, Metadata = ''chk1''\<rparr>,
            \<lparr>Partition = 2, Begin = 300, End = 350, Offset = - 1, Metadata = []\<rparr>], None)"
  by code_simp

theorem GetGroupOffsets_positions_witness:
  "fst (GetGroupOffsets [1, 0, 0] (admin_of demo_clt demo_conn) ''g1'' ''orders'' demo_store) =
     (Some [\<lparr>Partition = 0, Begin = 100, End = 150, Offset = - 1, Metadata = []\<rparr>,
            \<lparr>Partition = 1, Begin = 20, End = 40, Offset = 42, Metadata = ''chk1''\<rparr>,
            \<lparr>Partition = 2, Begin = 300, End = 350, Offset = - 1, Metadata = []\<rparr>], None)
   \<and> fst (Partitions demo_clt ''orders'') = [0, 1, 2]
   \<and> Partition ([\<lparr>Partition = 0, Begin = 100, End = 150, Offset = - 1, Metadata = []\<rparr>,
            \<lparr>Partition = 1, Begin = 20, End = 40, Offset = 42, Metadata = ''chk1''\<rparr>,
            \<lparr>Partition = 2, Begin = 300, End = 350, Offset = - 1, Metadata = []\<rparr>] ! 2) = [0, 1, 2] ! 2"
proof -
  have p: "fst (Partitions demo_clt ''orders'') = [0, 1, 2]"
    by (simp add: demo_clt_def)
  show ?thesis
    using GetGroupOffsets_positions [OF lazyKafkaClt_admin_of demo_offsets] demo_offsets p
    by simp
qed

theorem GetGroupOffsets_all_or_nothing_witness:
  "range_query_fails lossy_clt ''orders'' (2, [\<lparr>xp_index = 1, xp_partition = 1\<rparr>])
   \<and> fst (GetGroupOffsets [0, 1] (admin_of lossy_clt demo_conn) ''g1'' ''orders'' demo_store) =
       (None, Some (withMessage (external ''EOF'') ''failed to fetch oldest offset, broker=%v'' [ArgInt 2]))"
proof -
  have p: "Partitions lossy_clt ''orders'' = ([0, 1, 2], None)"
    by (simp add: lossy_clt_def demo_clt_def)
  have g: "group_by_leader lossy_clt ''orders'' (enumerate 0 [0, 1, 2]) [] =
      Inr [(1, [\<lparr>xp_index = 0, xp_partition = 0\<rparr>, \<lparr>xp_index = 2, xp_partition = 2\<rparr>]),
           (2, [\<lparr>xp_index = 1, xp_partition = 1\<rparr>])]"
    by code_simp
  have b: "(2, [\<lparr>xp_index = 1, xp_partition = 1\<rparr>]) \<in>
      set [(1, [\<lparr>xp_index = 0, xp_partition = 0\<rparr>, \<lparr>xp_index = 2, xp_partition = 2\<rparr>]),
           (2 :: Broker, [\<lparr>xp_index = 1, xp_partition = 1\<rparr>])]"
    by simp
  have f: "range_query_fails lossy_clt ''orders'' (2, [\<lparr>xp_index = 1, xp_partition = 1\<rparr>])"
    by code_simp
  have r: "fst (GetGroupOffsets [0, 1] (admin_of lossy_clt demo_conn) ''g1'' ''orders'' demo_store) =
       (None, Some (withMessage (external ''EOF'') ''failed to fetch oldest offset, broker=%v'' [ArgInt 2]))"
    by code_simp
  show ?thesis
    using GetGroupOffsets_all_or_nothing [OF lazyKafkaClt_admin_of p g b f, of "[0, 1]" demo_conn "''g1''" demo_store] f r
    by simp
qed

lemma fill_committed_missing_block:
  "ip \<in> set ips \<Longrightarrow> res topic (snd ip) = None \<Longrightarrow> fill_committed res topic ips offsets = (None, None)"
proof (induction ips arbitrary: offsets)
  case Nil
  then show ?case by simp
next
  case (Cons x ips)
  obtain i p where x: "x = (i, p)" by (cases x)
  show ?case
  proof (cases "res topic p")
    case None
    then show ?thesis using x by simp
  next
    case (Some block)
    with Cons.prems x have "ip \<in> set ips" by auto
    from Cons.IH [OF this Cons.prems(2)] show ?thesis using x Some by simp
  qed
qed

text \<open>
  C2. The fetch response of the coordinator has no block for partition \<open>2\<close>, and
  \<^verbatim>\<open>GetGroupOffsets\<close> returns neither an array nor an error.
\<close>

theorem GetGroupOffsets_missing_block:
  "fst (GetGroupOffsets [] (admin_of gap_clt demo_conn) ''g1'' ''orders'' demo_store) = (None, None)"
  by code_simp

subsection \<open>Committing and reading back\<close>

















text \<open>
  The scenario of the specification: committing offset 42 with metadata \<open>chk1\<close> for
  partition 1 of \<open>g1\<close> and \<open>orders\<close> into an empty store, and reading it back.
\<close>

lemma demo_commit_then_fetch_chk1:
  "snd (SetGroupOffsets [] (admin_of demo_clt demo_conn) ''g1'' ''orders'' [chk1_record] []) = demo_store
   \<and> fst (GetGroupOffsets [] (admin_of demo_clt demo_conn) ''g1'' ''orders'' demo_store) =
     (Some [\<lparr>Partition = 0, Begin = 100, End = 150, Offset = - 1, Metadata = []\<rparr>,
            \<lparr>Partition = 1, Begin = 20, End = 40, Offset = 42, Metadata = ''chk1''\<rparr>,
            \<lparr>Partition = 2, Begin = 300, End = 350, Offset = - 1, Metadata = []\<rparr>], None)"
proof -
  have "snd (SetGroupOffsets [] (admin_of demo_clt demo_conn) ''g1'' ''orders'' [chk1_record] []) = demo_store"
    by (simp add: SetGroupOffsets_round_trip [OF lazyKafkaClt_admin_of demo_coordinator(1) demo_commit_chk1])
  moreover have "fst (GetGroupOffsets [] (admin_of demo_clt demo_conn) ''g1'' ''orders'' demo_store) =
     (Some [\<lparr>Partition = 0, Begin = 100, End = 150, Offset = - 1, Metadata = []\<rparr>,
            \<lparr>Partition = 1, Begin = 20, End = 40, Offset = 42, Metadata = ''chk1''\<rparr>,
            \<lparr>Partition = 2, Begin = 300, End = 350, Offset = - 1, Metadata = []\<rparr>], None)"
    by code_simp
  ultimately show ?thesis by simp
qed

end
